theory Spec2Isabelle
  imports Complex_Main
begin

section \<open>JavaScript numbers\<close>

text \<open>
  A TypeScript \<open>number\<close> is an IEEE 754 binary64 value: a finite dyadic rational, one of
  the two infinities, or NaN.  The two zeros are identified (\<open>Finite 0\<close>): \<open>===\<close> does
  not tell them apart, and the operations used below (\<open>+\<close>, \<open>*\<close>, division by the literal
  \<open>100\<close>) never produce results that depend on the sign of a zero.
\<close>

datatype number = Finite rat | PosInfinity | NegInfinity | NaN

definition pow2 :: "int \<Rightarrow> rat" where
  "pow2 e = (if 0 \<le> e then 2 ^ nat e else 1 / 2 ^ nat (- e))"

function bit_length :: "int \<Rightarrow> int" where
  "bit_length n = (if n \<le> 0 then 0 else 1 + bit_length (n div 2))"
  by pat_completeness auto
termination
  by (relation "measure nat") auto

text \<open>\<open>ilog2 q\<close> is the binary exponent of a positive rational: \<open>2^e \<le> q < 2^(e+1)\<close>.\<close>

definition ilog2 :: "rat \<Rightarrow> int" where
  "ilog2 q = (case quotient_of q of (n, d) \<Rightarrow>
     let k = bit_length n - bit_length d
     in if q < pow2 k then k - 1 else k)"

definition round_half_even :: "rat \<Rightarrow> int" where
  "round_half_even q = (let f = \<lfloor>q\<rfloor>; d = q - of_int f in
      if d < 1 / 2 then f else if 1 / 2 < d then f + 1 else if even f then f else f + 1)"

text \<open>
  Rounding of an exact result to binary64, round-to-nearest, ties-to-even: 53 bits of
  precision, exponents from \<open>-1022\<close> (below it the spacing of the subnormals is kept) to
  \<open>1023\<close> (above it the result overflows to an infinity).
\<close>

definition round_double :: "rat \<Rightarrow> number" where
  "round_double q = (if q = 0 then Finite 0 else
      let e = max (ilog2 \<bar>q\<bar>) (- 1022);
          ulp = pow2 (e - 52);
          n = round_half_even (\<bar>q\<bar> / ulp)
      in if 1023 < e \<or> (e = 1023 \<and> n = 9007199254740992)
         then (if 0 < q then PosInfinity else NegInfinity)
         else Finite (sgn q * (of_int n * ulp)))"

definition is_double :: "number \<Rightarrow> bool" where
  "is_double x = (case x of Finite a \<Rightarrow> round_double a = Finite a | _ \<Rightarrow> True)"

definition isFinite :: "number \<Rightarrow> bool" where
  "isFinite x = (case x of Finite a \<Rightarrow> True | _ \<Rightarrow> False)"

text \<open>JavaScript \<open>x + y\<close>.\<close>

fun fadd :: "number \<Rightarrow> number \<Rightarrow> number" where
  "fadd NaN y = NaN"
| "fadd x NaN = NaN"
| "fadd PosInfinity NegInfinity = NaN"
| "fadd NegInfinity PosInfinity = NaN"
| "fadd PosInfinity y = PosInfinity"
| "fadd NegInfinity y = NegInfinity"
| "fadd x PosInfinity = PosInfinity"
| "fadd x NegInfinity = NegInfinity"
| "fadd (Finite a) (Finite b) = round_double (a + b)"

fun sign_of :: "number \<Rightarrow> int" where
  "sign_of (Finite a) = (if a < 0 then - 1 else if a = 0 then 0 else 1)"
| "sign_of PosInfinity = 1"
| "sign_of NegInfinity = - 1"
| "sign_of NaN = 0"

text \<open>JavaScript \<open>x * y\<close>: an infinity times a zero is NaN.\<close>

fun fmul :: "number \<Rightarrow> number \<Rightarrow> number" where
  "fmul NaN y = NaN"
| "fmul x NaN = NaN"
| "fmul (Finite a) (Finite b) = round_double (a * b)"
| "fmul x y = (if sign_of x * sign_of y = 0 then NaN
               else if 0 < sign_of x * sign_of y then PosInfinity else NegInfinity)"

text \<open>JavaScript \<open>x / 100\<close>, division by the positive literal of \<open>calculateTax\<close>.\<close>

fun fdiv100 :: "number \<Rightarrow> number" where
  "fdiv100 (Finite a) = round_double (a / 100)"
| "fdiv100 x = x"

section \<open>Tax utilities\<close>

text \<open>
  \<^verbatim>\<open>export function calculateTax(amount: number, rate: number): number {
    return amount * (rate / 100);
  }\<close>
\<close>

definition calculateTax :: "number \<Rightarrow> number \<Rightarrow> number" where
  "calculateTax amount rate = fmul amount (fdiv100 rate)"

text \<open>
  \<^verbatim>\<open>export function calculateAmountWithTax(amount: number, rate: number): number {
    return amount + calculateTax(amount, rate);
  }\<close>
\<close>

definition calculateAmountWithTax :: "number \<Rightarrow> number \<Rightarrow> number" where
  "calculateAmountWithTax amount rate = fadd amount (calculateTax amount rate)"

section \<open>Currency utilities\<close>

text \<open>
  \<^verbatim>\<open>export const currencies = [
    "USD", "EUR", "GBP", "JPY", "AUD", "CAD", "CHF", "CNY", "SEK", "NZD"
  ] as const;\<close>
\<close>

definition currencies :: "string list" where
  "currencies = [''USD'', ''EUR'', ''GBP'', ''JPY'', ''AUD'', ''CAD'', ''CHF'', ''CNY'',
                 ''SEK'', ''NZD'']"

text \<open>\<open>Array.prototype.includes\<close> on an array of strings: a left-to-right search.\<close>

fun array_includes :: "'a list \<Rightarrow> 'a \<Rightarrow> bool" where
  "array_includes [] v = False"
| "array_includes (x # xs) v = (if x = v then True else array_includes xs v)"

text \<open>
  \<^verbatim>\<open>export function isSupportedCurrency(currency: string): currency is Currency {
    return currencies.includes(currency as Currency);
  }\<close>
\<close>

definition isSupportedCurrency :: "string \<Rightarrow> bool" where
  "isSupportedCurrency currency = array_includes currencies currency"

section \<open>The schema\<close>

subsection \<open>Enumerations kept as TypeScript value lists\<close>

text \<open>
  \<^verbatim>\<open>export const inboxStatusValues = [
    "processing", "pending", "archived", "new", "analyzing",
    "suggested_match", "no_match", "done", "deleted"
  ] as const;
  export type InboxStatus = typeof inboxStatusValues[number];\<close>
\<close>

definition inboxStatusValues :: "string list" where
  "inboxStatusValues = [''processing'', ''pending'', ''archived'', ''new'', ''analyzing'',
     ''suggested_match'', ''no_match'', ''done'', ''deleted'']"

datatype InboxStatus =
  Processing | Pending | Archived | New | Analyzing | Suggested_match | No_match | Done | Deleted

fun inboxStatus_string :: "InboxStatus \<Rightarrow> string" where
  "inboxStatus_string Processing = ''processing''"
| "inboxStatus_string Pending = ''pending''"
| "inboxStatus_string Archived = ''archived''"
| "inboxStatus_string New = ''new''"
| "inboxStatus_string Analyzing = ''analyzing''"
| "inboxStatus_string Suggested_match = ''suggested_match''"
| "inboxStatus_string No_match = ''no_match''"
| "inboxStatus_string Done = ''done''"
| "inboxStatus_string Deleted = ''deleted''"

definition inboxStatus_of_string :: "string \<Rightarrow> InboxStatus option" where
  "inboxStatus_of_string s =
     (if s = ''processing'' then Some Processing
      else if s = ''pending'' then Some Pending
      else if s = ''archived'' then Some Archived
      else if s = ''new'' then Some New
      else if s = ''analyzing'' then Some Analyzing
      else if s = ''suggested_match'' then Some Suggested_match
      else if s = ''no_match'' then Some No_match
      else if s = ''done'' then Some Done
      else if s = ''deleted'' then Some Deleted
      else None)"

text \<open>
  \<^verbatim>\<open>export const invoiceStatusValues =
    ["draft", "overdue", "paid", "unpaid", "canceled", "scheduled"] as const;
  export type InvoiceStatus = typeof invoiceStatusValues[number];\<close>
\<close>

definition invoiceStatusValues :: "string list" where
  "invoiceStatusValues = [''draft'', ''overdue'', ''paid'', ''unpaid'', ''canceled'',
     ''scheduled'']"

datatype InvoiceStatus = Draft | Overdue | Paid | Unpaid | Canceled | Scheduled

fun invoiceStatus_string :: "InvoiceStatus \<Rightarrow> string" where
  "invoiceStatus_string Draft = ''draft''"
| "invoiceStatus_string Overdue = ''overdue''"
| "invoiceStatus_string Paid = ''paid''"
| "invoiceStatus_string Unpaid = ''unpaid''"
| "invoiceStatus_string Canceled = ''canceled''"
| "invoiceStatus_string Scheduled = ''scheduled''"

text \<open>
  The states named by the invoice lifecycle graph of the specification,
  \<open>draft \<rightarrow> {scheduled | sent} \<rightarrow> {paid | overdue | canceled}\<close>, for comparison with
  \<open>invoiceStatusValues\<close>.
\<close>

definition spec_invoice_states :: "string list" where
  "spec_invoice_states = [''draft'', ''scheduled'', ''sent'', ''paid'', ''overdue'',
     ''canceled'']"

subsection \<open>Column and table declarations\<close>

text \<open>
  The storage classes of the column builders \<open>integer\<close>, \<open>real\<close> and \<open>text\<close> of
  \<open>drizzle-orm/sqlite-core\<close>.  A \<open>REAL\<close> column holds an 8-byte IEEE floating point
  number.
\<close>

datatype sqlite_type = INTEGER | REAL | TEXT

datatype column_mode = Plain | Timestamp | Boolean | Json

text \<open>
  Stored values.  A boolean is the integer 0 or 1, a timestamp an integer, JSON a text.
\<close>

datatype val = Null | IntV int | RealV number | TextV string

datatype default_spec = NoDefault | Default val | DefaultFn_generateUUID | DefaultFn_newDate

record column =
  cname :: string
  ctype :: sqlite_type
  cmode :: column_mode
  primary_key :: bool
  not_null :: bool
  cdefault :: default_spec

definition text_col :: "string \<Rightarrow> column" where
  "text_col n = \<lparr>cname = n, ctype = TEXT, cmode = Plain, primary_key = False,
     not_null = False, cdefault = NoDefault\<rparr>"

definition json_col :: "string \<Rightarrow> column" where
  "json_col n = (text_col n)\<lparr>cmode := Json\<rparr>"

definition integer_col :: "string \<Rightarrow> column" where
  "integer_col n = \<lparr>cname = n, ctype = INTEGER, cmode = Plain, primary_key = False,
     not_null = False, cdefault = NoDefault\<rparr>"

definition real_col :: "string \<Rightarrow> column" where
  "real_col n = \<lparr>cname = n, ctype = REAL, cmode = Plain, primary_key = False,
     not_null = False, cdefault = NoDefault\<rparr>"

text \<open>
  \<^verbatim>\<open>const timestampColumn = (name: string) => integer(name, { mode: "timestamp" });
  const booleanColumn = (name: string) => integer(name, { mode: "boolean" });\<close>
\<close>

definition timestampColumn :: "string \<Rightarrow> column" where
  "timestampColumn n = (integer_col n)\<lparr>cmode := Timestamp\<rparr>"

definition booleanColumn :: "string \<Rightarrow> column" where
  "booleanColumn n = (integer_col n)\<lparr>cmode := Boolean\<rparr>"

definition primaryKey :: "column \<Rightarrow> column" where
  "primaryKey c = c\<lparr>primary_key := True\<rparr>"

definition notNull :: "column \<Rightarrow> column" where
  "notNull c = c\<lparr>not_null := True\<rparr>"

definition default_to :: "val \<Rightarrow> column \<Rightarrow> column" where
  "default_to v c = c\<lparr>cdefault := Default v\<rparr>"

definition defaultFn :: "default_spec \<Rightarrow> column \<Rightarrow> column" where
  "defaultFn f c = c\<lparr>cdefault := f\<rparr>"

text \<open>The recurring \<open>text("id").primaryKey().notNull().$defaultFn(() => generateUUID())\<close>.\<close>

definition id_col :: column where
  "id_col = defaultFn DefaultFn_generateUUID (notNull (primaryKey (text_col ''id'')))"

text \<open>
  The recurring
  \<open>timestampColumn("created_at").notNull().$defaultFn(() => new Date())\<close>.
\<close>

definition created_at_col :: column where
  "created_at_col = defaultFn DefaultFn_newDate (notNull (timestampColumn ''created_at''))"

record index_def =
  iname :: string
  unique :: bool
  on_cols :: "string list"

definition index_on :: "string \<Rightarrow> string list \<Rightarrow> index_def" where
  "index_on n cs = \<lparr>iname = n, unique = False, on_cols = cs\<rparr>"

definition uniqueIndex :: "string \<Rightarrow> string list \<Rightarrow> index_def" where
  "uniqueIndex n cs = \<lparr>iname = n, unique = True, on_cols = cs\<rparr>"

record table_def =
  tname :: string
  columns :: "column list"
  indexes :: "index_def list"

subsection \<open>The tables\<close>

definition teams :: table_def where
  "teams = \<lparr>tname = ''teams'',
     columns = [
       id_col,
       notNull (text_col ''name''),
       text_col ''logo_url'',
       text_col ''inbox_id'',
       default_to (TextV ''en'') (text_col ''email_language''),
       text_col ''inbox_email'',
       default_to (IntV 0) (booleanColumn ''inbox_forwarding''),
       text_col ''base_url'',
       notNull (text_col ''plan''),
       text_col ''country_code'',
       timestampColumn ''canceled_at'',
       created_at_col,
       default_to (IntV 0) (booleanColumn ''document_classification''),
       integer_col ''revalidate'',
       text_col ''web_verification'',
       booleanColumn ''web_verified'',
       default_to (IntV 1) (integer_col ''invoice_sequence'')],
     indexes = [
       index_on ''teams_name_idx'' [''name''],
       uniqueIndex ''teams_inbox_id_key'' [''inbox_id'']]\<rparr>"

definition transactions :: table_def where
  "transactions = \<lparr>tname = ''transactions'',
     columns = [
       id_col,
       created_at_col,
       notNull (text_col ''date''),
       notNull (text_col ''name''),
       notNull (text_col ''method''),
       notNull (real_col ''amount''),
       notNull (text_col ''currency''),
       notNull (text_col ''team_id''),
       text_col ''assigned_id'',
       text_col ''note'',
       text_col ''bank_account_id'',
       notNull (text_col ''internal_id''),
       default_to (TextV ''posted'') (text_col ''status''),
       real_col ''balance'',
       default_to (IntV 0) (booleanColumn ''manual''),
       default_to (IntV 0) (booleanColumn ''notified''),
       default_to (IntV 0) (booleanColumn ''internal''),
       text_col ''description'',
       text_col ''category_slug'',
       real_col ''base_amount'',
       text_col ''counterparty_name'',
       text_col ''base_currency'',
       real_col ''tax_amount'',
       real_col ''tax_rate'',
       text_col ''tax_type'',
       booleanColumn ''recurring'',
       text_col ''frequency'',
       text_col ''merchant_name'',
       default_to (IntV 0) (booleanColumn ''enrichment_completed'')],
     indexes = [
       index_on ''transactions_team_id_idx'' [''team_id''],
       index_on ''transactions_date_idx'' [''date''],
       index_on ''transactions_bank_account_id_idx'' [''bank_account_id''],
       index_on ''transactions_category_slug_idx'' [''category_slug''],
       uniqueIndex ''transactions_internal_id_key'' [''internal_id''],
       index_on ''transactions_assigned_id_idx'' [''assigned_id'']]\<rparr>"

definition transactionMatchSuggestions :: table_def where
  "transactionMatchSuggestions = \<lparr>tname = ''transaction_match_suggestions'',
     columns = [
       id_col,
       notNull (text_col ''transaction_id''),
       notNull (text_col ''inbox_id''),
       notNull (real_col ''score''),
       created_at_col],
     indexes = [
       index_on ''transaction_match_suggestions_transaction_id_idx'' [''transaction_id''],
       index_on ''transaction_match_suggestions_inbox_id_idx'' [''inbox_id'']]\<rparr>"

definition invoices :: table_def where
  "invoices = \<lparr>tname = ''invoices'',
     columns = [
       id_col,
       created_at_col,
       timestampColumn ''updated_at'',
       notNull (text_col ''team_id''),
       text_col ''customer_id'',
       notNull (text_col ''invoice_number''),
       default_to (TextV ''draft'') (text_col ''status''),
       default_to (TextV ''a4'') (text_col ''template''),
       text_col ''currency'',
       real_col ''amount'',
       real_col ''vat'',
       real_col ''tax'',
       text_col ''due_date'',
       notNull (text_col ''issue_date''),
       default_to (IntV 0) (booleanColumn ''paid''),
       timestampColumn ''paid_at'',
       text_col ''note_details'',
       json_col ''from_details'',
       json_col ''customer_details'',
       json_col ''payment_details'',
       defaultFn DefaultFn_generateUUID (text_col ''token''),
       default_to (TextV ''create'') (text_col ''delivery_type''),
       timestampColumn ''schedule_date'',
       default_to (IntV 0) (booleanColumn ''reminder_sent''),
       timestampColumn ''viewed_at'',
       text_col ''internal_note'',
       json_col ''line_items'',
       real_col ''discount_amount'',
       real_col ''tax_amount'',
       real_col ''top_amount'',
       real_col ''bottom_amount'',
       real_col ''subtotal'',
       text_col ''invoice_url''],
     indexes = [
       index_on ''invoices_team_id_idx'' [''team_id''],
       index_on ''invoices_customer_id_idx'' [''customer_id''],
       uniqueIndex ''invoices_invoice_number_key'' [''invoice_number''],
       uniqueIndex ''invoices_token_key'' [''token'']]\<rparr>"

definition inbox :: table_def where
  "inbox = \<lparr>tname = ''inbox'',
     columns = [
       id_col,
       created_at_col,
       notNull (text_col ''team_id''),
       default_to (TextV ''pending'') (text_col ''status''),
       text_col ''type'',
       real_col ''amount'',
       text_col ''currency'',
       text_col ''date'',
       text_col ''name'',
       text_col ''website'',
       text_col ''description'',
       json_col ''attachments'',
       json_col ''metadata'',
       text_col ''inbox_account_id'',
       text_col ''reference_id'',
       text_col ''forwarded_to'',
       text_col ''transaction_id'',
       timestampColumn ''read_at'',
       text_col ''display_name'',
       text_col ''content_type'',
       integer_col ''size''],
     indexes = [
       index_on ''inbox_team_id_idx'' [''team_id''],
       index_on ''inbox_status_idx'' [''status''],
       index_on ''inbox_transaction_id_idx'' [''transaction_id''],
       uniqueIndex ''inbox_reference_id_key'' [''reference_id'']]\<rparr>"

section \<open>The database engine\<close>

text \<open>
  The tables above are declarations; what they mean is what SQLite, driven through
  drizzle, does with them.  A row maps column names to values; a table state is the list
  of its rows.
\<close>

type_synonym row = "(string \<times> val) list"

definition col :: "row \<Rightarrow> string \<Rightarrow> val" where
  "col r c = (case map_of r c of Some v \<Rightarrow> v | None \<Rightarrow> Null)"

text \<open>
  \<^verbatim>\<open>export function generateUUID(): string { return crypto.randomUUID(); }\<close>

  The generated identifiers and the clock are inputs of an insertion: \<open>gen_uuid env c\<close> is
  the identifier that \<open>generateUUID()\<close> returns for column \<open>c\<close>, \<open>now env\<close> the value of
  \<open>new Date()\<close>.
\<close>

record env =
  gen_uuid :: "string \<Rightarrow> string"
  now :: int

definition default_value :: "env \<Rightarrow> column \<Rightarrow> val" where
  "default_value e c = (case cdefault c of
       NoDefault \<Rightarrow> Null
     | Default v \<Rightarrow> v
     | DefaultFn_generateUUID \<Rightarrow> TextV (gen_uuid e (cname c))
     | DefaultFn_newDate \<Rightarrow> IntV (now e))"

text \<open>
  \<open>db.insert(t).values(vs)\<close>: a column absent from \<open>vs\<close> takes its default, \<open>NULL\<close> when
  it has none.
\<close>

definition value_for :: "env \<Rightarrow> row \<Rightarrow> column \<Rightarrow> val" where
  "value_for e vs c = (case map_of vs (cname c) of Some v \<Rightarrow> v | None \<Rightarrow> default_value e c)"

text \<open>
  The static types of drizzle's \<open>values\<close> and \<open>set\<close>.  A \<open>text\<close> column takes a string; a
  \<open>real\<close> column and an \<open>integer\<close> column without mode take a number, which in JavaScript
  is a binary64 value (\<open>RealV\<close>, NaN and the infinities included); an \<open>integer\<close> column
  with mode takes a boolean or a date, which drizzle turns into an integer (\<open>IntV\<close>, as is
  an integer default); \<open>null\<close> is taken anywhere.  A value of another type is not a program.
\<close>

definition has_type :: "column \<Rightarrow> val \<Rightarrow> bool" where
  "has_type c v = (case v of
       Null \<Rightarrow> True
     | IntV i \<Rightarrow> ctype c = INTEGER
     | RealV x \<Rightarrow> is_double x \<and> (ctype c = REAL \<or> (ctype c = INTEGER \<and> cmode c = Plain))
     | TextV s \<Rightarrow> ctype c = TEXT)"

definition values_typed :: "env \<Rightarrow> table_def \<Rightarrow> row \<Rightarrow> bool" where
  "values_typed e t vs = list_all (\<lambda>c. has_type c (value_for e vs c)) (columns t)"

text \<open>
  What the engine stores for a value.  D1 binds a number that is not finite as \<open>NULL\<close>.
  A column of \<open>INTEGER\<close> affinity stores a number as an integer when it is one (within 64
  bits), as a real otherwise.
\<close>

definition bind :: "column \<Rightarrow> val \<Rightarrow> val" where
  "bind c v = (case v of
       RealV x \<Rightarrow>
         (case x of
            Finite q \<Rightarrow>
              if ctype c = INTEGER \<and> of_int \<lfloor>q\<rfloor> = q \<and> - (2 ^ 63) \<le> q \<and> q < 2 ^ 63
              then IntV \<lfloor>q\<rfloor> else RealV x
          | _ \<Rightarrow> Null)
     | _ \<Rightarrow> v)"

definition apply_defaults :: "env \<Rightarrow> table_def \<Rightarrow> row \<Rightarrow> row" where
  "apply_defaults e t vs = map (\<lambda>c. (cname c, bind c (value_for e vs c))) (columns t)"

text \<open>
  The values that a column can hold once stored: \<open>NULL\<close>, an integer in an \<open>INTEGER\<close> column,
  a finite binary64 number in a \<open>REAL\<close> column (or in an \<open>INTEGER\<close> column without mode),
  a text in a \<open>TEXT\<close> column.
\<close>

definition stored_ok :: "column \<Rightarrow> val \<Rightarrow> bool" where
  "stored_ok c v = (case v of
       Null \<Rightarrow> True
     | IntV i \<Rightarrow> ctype c = INTEGER
     | RealV x \<Rightarrow> isFinite x \<and> is_double x \<and>
                  (ctype c = REAL \<or> (ctype c = INTEGER \<and> cmode c = Plain))
     | TextV s \<Rightarrow> ctype c = TEXT)"

definition types_ok :: "table_def \<Rightarrow> row \<Rightarrow> bool" where
  "types_ok t r = list_all (\<lambda>c. stored_ok c (col r (cname c))) (columns t)"

definition not_null_ok :: "table_def \<Rightarrow> row \<Rightarrow> bool" where
  "not_null_ok t r = list_all (\<lambda>c. \<not> not_null c \<or> col r (cname c) \<noteq> Null) (columns t)"

definition column_of :: "table_def \<Rightarrow> string \<Rightarrow> column option" where
  "column_of t n = find (\<lambda>c. cname c = n) (columns t)"

text \<open>
  The uniqueness constraints of a table: its primary key and its unique indexes.  As in
  SQLite, a key with a \<open>NULL\<close> component conflicts with nothing.
\<close>

definition unique_keys :: "table_def \<Rightarrow> string list list" where
  "unique_keys t =
     (let pk = map cname (filter primary_key (columns t))
      in (if pk = [] then [] else [pk]) @ map on_cols (filter unique (indexes t)))"

definition key_of :: "string list \<Rightarrow> row \<Rightarrow> val list" where
  "key_of K r = map (col r) K"

definition key_null :: "string list \<Rightarrow> row \<Rightarrow> bool" where
  "key_null K r = (Null \<in> set (key_of K r))"

definition unique_ok :: "table_def \<Rightarrow> row list \<Rightarrow> row \<Rightarrow> bool" where
  "unique_ok t rows r =
     list_all (\<lambda>K. key_null K r \<or> list_all (\<lambda>r'. key_of K r' \<noteq> key_of K r) rows)
       (unique_keys t)"

definition key_distinct :: "string list \<Rightarrow> row list \<Rightarrow> bool" where
  "key_distinct K rows = distinct (map (key_of K) (filter (\<lambda>r. \<not> key_null K r) rows))"

datatype db_error = TypeMismatch | NotNullViolation | UniqueViolation

definition insert_row :: "env \<Rightarrow> table_def \<Rightarrow> row \<Rightarrow> row list \<Rightarrow> db_error + row list" where
  "insert_row e t vs rows =
     (if \<not> values_typed e t vs then Inl TypeMismatch
      else let r = apply_defaults e t vs in
        if \<not> not_null_ok t r then Inl NotNullViolation
        else if \<not> unique_ok t rows r then Inl UniqueViolation
        else Inr (rows @ [r]))"

text \<open>\<open>db.update(t).set(sets).where(w)\<close>: the named columns of the selected rows change.\<close>

definition set_cols :: "row \<Rightarrow> row \<Rightarrow> row" where
  "set_cols sets r = map (\<lambda>(c, v). (c, case map_of sets c of Some v' \<Rightarrow> v' | None \<Rightarrow> v)) r"

definition sets_typed :: "table_def \<Rightarrow> row \<Rightarrow> bool" where
  "sets_typed t sets =
     list_all (\<lambda>c. case map_of sets (cname c) of Some v \<Rightarrow> has_type c v | None \<Rightarrow> True)
       (columns t)"

definition bind_sets :: "table_def \<Rightarrow> row \<Rightarrow> row" where
  "bind_sets t sets =
     map (\<lambda>(n, v). (n, case column_of t n of Some c \<Rightarrow> bind c v | None \<Rightarrow> v)) sets"

text \<open>
  The statement is rejected, and changes nothing, when the updated table would break a
  constraint.
\<close>

definition update_rows ::
  "table_def \<Rightarrow> (row \<Rightarrow> bool) \<Rightarrow> row \<Rightarrow> row list \<Rightarrow> db_error + row list" where
  "update_rows t w sets rows =
     (if \<not> sets_typed t sets then Inl TypeMismatch
      else let rows' = map (\<lambda>r. if w r then set_cols (bind_sets t sets) r else r) rows in
        if \<not> list_all (not_null_ok t) rows' then Inl NotNullViolation
        else if \<not> list_all (\<lambda>K. key_distinct K rows') (unique_keys t) then Inl UniqueViolation
        else Inr rows')"

text \<open>\<open>db.delete(t).where(w)\<close>.\<close>

definition delete_rows :: "(row \<Rightarrow> bool) \<Rightarrow> row list \<Rightarrow> row list" where
  "delete_rows w rows = filter (\<lambda>r. \<not> w r) rows"

text \<open>The states of a table: what insertions, updates and deletions produce from nothing.\<close>

inductive reachable :: "table_def \<Rightarrow> row list \<Rightarrow> bool" for t :: table_def where
  empty: "reachable t []"
| inserted: "reachable t rows \<Longrightarrow> insert_row e t vs rows = Inr rows' \<Longrightarrow> reachable t rows'"
| updated: "reachable t rows \<Longrightarrow> update_rows t w sets rows = Inr rows' \<Longrightarrow> reachable t rows'"
| deleted: "reachable t rows \<Longrightarrow> reachable t (delete_rows w rows)"

definition row_ok :: "table_def \<Rightarrow> row \<Rightarrow> bool" where
  "row_ok t r = (map fst r = map cname (columns t) \<and> not_null_ok t r)"

definition table_ok :: "table_def \<Rightarrow> row list \<Rightarrow> bool" where
  "table_ok t rows =
     (list_all (row_ok t) rows \<and> list_all (\<lambda>K. key_distinct K rows) (unique_keys t))"

lemmas column_defs = text_col_def json_col_def integer_col_def real_col_def timestampColumn_def
  booleanColumn_def primaryKey_def notNull_def default_to_def defaultFn_def id_col_def
  created_at_col_def index_on_def uniqueIndex_def

section \<open>Ledger ingestion\<close>

text \<open>The error taxonomy of the specification (section 7).\<close>

datatype error = ValidationError | ConflictError | DependencyError | NotFoundError

text \<open>
  The record pushed by the bank-sync collaborator (section 6):
  \<open>{internal_id, date, name, amount, currency, method, bank_account_id}\<close>.
\<close>

record externalRecord =
  er_internal_id :: string
  er_date :: string
  er_name :: string
  er_amount :: number
  er_currency :: string
  er_method :: string
  er_bank_account_id :: string

datatype ingest_result = Created | Unchanged

text \<open>
  The collaborators of an ingestion: the base currency of each team and the exchange-rate
  provider \<open>convert(amount, fromCcy, toCcy, asOf)\<close>, which may fail.
\<close>

record ledger_ctx =
  base_currency :: "string \<Rightarrow> string"
  convert :: "number \<Rightarrow> string \<Rightarrow> string \<Rightarrow> string \<Rightarrow> number option"

text \<open>The fields of the external record, as columns of the transactions table.\<close>

definition record_fields :: "externalRecord \<Rightarrow> row" where
  "record_fields rec =
     [(''date'', TextV (er_date rec)),
      (''name'', TextV (er_name rec)),
      (''amount'', RealV (er_amount rec)),
      (''currency'', TextV (er_currency rec)),
      (''method'', TextV (er_method rec)),
      (''bank_account_id'', TextV (er_bank_account_id rec))]"

text \<open>The idempotency key \<open>(team_id, internal_id)\<close>.\<close>

definition same_transaction :: "string \<Rightarrow> string \<Rightarrow> row \<Rightarrow> bool" where
  "same_transaction teamId internalId r =
     (col r ''team_id'' = TextV teamId \<and> col r ''internal_id'' = TextV internalId)"

text \<open>
  Modelled from the spec: \<open>ingestTransaction(teamId, externalRecord) -> {created | unchanged}\<close>
  of section 4.1, whose code is not among the sources (only the table it writes is).
  The input is validated before any write: an unsupported currency code or a non-finite
  amount is a \<open>ValidationError\<close>.  The amount is converted to the base currency of the team;
  a failure of the provider is a \<open>DependencyError\<close>.  A stored transaction with the key
  \<open>(team_id, internal_id)\<close> is merged: the fields of the record overwrite the stored ones,
  the user-set fields (category, note, assignment) are kept.  Otherwise a row is inserted.
  A constraint violation reported by the database is a \<open>ConflictError\<close>.  A failed call
  leaves the table as it was.  The emission of Activity events is left out.
\<close>

definition ingestTransaction ::
  "ledger_ctx \<Rightarrow> env \<Rightarrow> string \<Rightarrow> externalRecord \<Rightarrow> row list
   \<Rightarrow> (error + ingest_result) \<times> row list" where
  "ingestTransaction ctx e teamId rec rows =
     (if \<not> isSupportedCurrency (er_currency rec) \<or> \<not> isFinite (er_amount rec)
      then (Inl ValidationError, rows)
      else case convert ctx (er_amount rec) (er_currency rec) (base_currency ctx teamId)
                  (er_date rec) of
        None \<Rightarrow> (Inl DependencyError, rows)
      | Some base \<Rightarrow>
          let flds = record_fields rec @
                [(''base_amount'', RealV base),
                 (''base_currency'', TextV (base_currency ctx teamId))]
          in case find (same_transaction teamId (er_internal_id rec)) rows of
            Some stored \<Rightarrow>
              (case update_rows transactions (same_transaction teamId (er_internal_id rec))
                      flds rows of
                 Inl err \<Rightarrow> (Inl ConflictError, rows)
               | Inr rows' \<Rightarrow> (Inr Unchanged, rows'))
          | None \<Rightarrow>
              (case insert_row e transactions
                      ((''team_id'', TextV teamId) #
                       (''internal_id'', TextV (er_internal_id rec)) # flds) rows of
                 Inl err \<Rightarrow> (Inl ConflictError, rows)
               | Inr rows' \<Rightarrow> (Inr Created, rows')))"

section \<open>Inbox reconciliation\<close>

text \<open>
  The code of the reconciliation engine is not among the sources; the tables it works on
  are.  The definitions of this section follow sections 4.2, 5 and 6 of the specification.
\<close>

record db =
  transactions_t :: "row list"
  inbox_t :: "row list"
  suggestions_t :: "row list"

definition empty_db :: db where
  "empty_db = \<lparr>transactions_t = [], inbox_t = [], suggestions_t = []\<rparr>"

text \<open>
  Modelled from the spec: the state-machine graph of an inbox item (section 4.2),
  \<open>new \<rightarrow> processing \<rightarrow> analyzing \<rightarrow> {suggested_match | no_match} \<rightarrow> {done | archived}\<close>,
  with \<open>pending\<close> entering at \<open>processing\<close> like \<open>new\<close>, auto-confirmation going from
  \<open>analyzing\<close> directly to \<open>done\<close>, re-analysis moving an item between \<open>suggested_match\<close>
  and \<open>no_match\<close>, and \<open>archived\<close> and \<open>deleted\<close> reachable from every state except the
  terminal \<open>done\<close> and \<open>deleted\<close>.
\<close>

definition inbox_edge :: "InboxStatus \<Rightarrow> InboxStatus \<Rightarrow> bool" where
  "inbox_edge s s' =
     ((s = New \<and> s' = Processing) \<or>
      (s = Pending \<and> s' = Processing) \<or>
      (s = Processing \<and> s' = Analyzing) \<or>
      (s = Analyzing \<and> (s' = Suggested_match \<or> s' = No_match \<or> s' = Done)) \<or>
      ((s = Suggested_match \<or> s = No_match) \<and>
         (s' = Done \<or> s' = Archived \<or> s' = Suggested_match \<or> s' = No_match)) \<or>
      (s \<noteq> Done \<and> s \<noteq> Deleted \<and> (s' = Archived \<or> s' = Deleted)))"

text \<open>
  The policy of the engine, left open by the specification (section 9): the thresholds
  \<open>T_auto\<close> and \<open>T_review\<close>, the matching window (date, currency and amount tolerance)
  between an inbox item and a transaction, the similarity provider
  \<open>score(inboxItem, candidateTransaction)\<close>, which gives no score when it times out, and the
  tie-break between two candidates of equal score (nearest date, then most recent
  transaction id).
\<close>

record engine_cfg =
  t_auto :: rat
  t_review :: rat
  in_window :: "row \<Rightarrow> row \<Rightarrow> bool"
  score :: "row \<Rightarrow> row \<Rightarrow> number option"
  tie_break :: "row \<Rightarrow> row \<Rightarrow> row \<Rightarrow> bool"

text \<open>The contract of the similarity provider: a score is a number of \<open>[0,1]\<close>.\<close>

definition in_unit_interval :: "number \<Rightarrow> bool" where
  "in_unit_interval s = (case s of Finite q \<Rightarrow> 0 \<le> q \<and> q \<le> 1 | _ \<Rightarrow> False)"


text \<open>JavaScript \<open>x > t\<close> and \<open>x < y\<close>.\<close>

definition exceeds :: "number \<Rightarrow> rat \<Rightarrow> bool" where
  "exceeds s t = (case s of Finite q \<Rightarrow> t < q | PosInfinity \<Rightarrow> True | _ \<Rightarrow> False)"

fun num_less :: "number \<Rightarrow> number \<Rightarrow> bool" where
  "num_less NaN y = False"
| "num_less x NaN = False"
| "num_less (Finite a) (Finite b) = (a < b)"
| "num_less x PosInfinity = (x \<noteq> PosInfinity)"
| "num_less NegInfinity y = (y \<noteq> NegInfinity)"
| "num_less x y = False"

text \<open>The extracted content of an inbox item (section 6).\<close>

record inbox_payload =
  p_amount :: "number option"
  p_currency :: "string option"
  p_date :: "string option"
  p_attachments :: "string option"

definition opt_val :: "('a \<Rightarrow> val) \<Rightarrow> 'a option \<Rightarrow> val" where
  "opt_val f x = (case x of None \<Rightarrow> Null | Some y \<Rightarrow> f y)"

definition inbox_item :: "string \<Rightarrow> string \<Rightarrow> row \<Rightarrow> bool" where
  "inbox_item teamId itemId r = (col r ''id'' = TextV itemId \<and> col r ''team_id'' = TextV teamId)"

definition status_of :: "row \<Rightarrow> InboxStatus option" where
  "status_of r = (case col r ''status'' of TextV s \<Rightarrow> inboxStatus_of_string s | _ \<Rightarrow> None)"

text \<open>
  Modelled from the spec: \<open>ingestInboxItem(teamId, reference_id, payload)\<close> (section 6).
  The idempotency key is \<open>(team_id, reference_id)\<close>: a second ingestion of a stored
  reference changes nothing.  An item enters as \<open>new\<close>, a manual upload as \<open>pending\<close>, with
  no transaction linked.
\<close>

definition ingestInboxItem ::
  "env \<Rightarrow> string \<Rightarrow> string \<Rightarrow> inbox_payload \<Rightarrow> bool \<Rightarrow> db \<Rightarrow> (error + unit) \<times> db" where
  "ingestInboxItem e teamId referenceId payload manual d =
     (if list_ex (\<lambda>r. col r ''team_id'' = TextV teamId \<and>
                       col r ''reference_id'' = TextV referenceId) (inbox_t d)
      then (Inr (), d)
      else case insert_row e inbox
             [(''team_id'', TextV teamId),
              (''reference_id'', TextV referenceId),
              (''status'', TextV (inboxStatus_string (if manual then Pending else New))),
              (''amount'', opt_val RealV (p_amount payload)),
              (''currency'', opt_val TextV (p_currency payload)),
              (''date'', opt_val TextV (p_date payload)),
              (''attachments'', opt_val TextV (p_attachments payload))]
             (inbox_t d) of
        Inl err \<Rightarrow> (Inl ConflictError, d)
      | Inr rows' \<Rightarrow> (Inr (), d\<lparr>inbox_t := rows'\<rparr>))"

text \<open>
  Modelled from the spec: one status transition of an inbox item of a team (section 4.2).
  An unknown item is a \<open>NotFoundError\<close>, a transition that the current status does not
  allow a \<open>ConflictError\<close> (section 7); a failed transition changes nothing.
\<close>

definition transition ::
  "string \<Rightarrow> string \<Rightarrow> (InboxStatus \<Rightarrow> bool) \<Rightarrow> InboxStatus \<Rightarrow> row \<Rightarrow> db
   \<Rightarrow> (error + unit) \<times> db" where
  "transition teamId itemId allowed target extra d =
     (case find (inbox_item teamId itemId) (inbox_t d) of
        None \<Rightarrow> (Inl NotFoundError, d)
      | Some item \<Rightarrow>
          (case status_of item of
             None \<Rightarrow> (Inl ConflictError, d)
           | Some s \<Rightarrow>
               if \<not> allowed s then (Inl ConflictError, d)
               else case update_rows inbox (inbox_item teamId itemId)
                           ((''status'', TextV (inboxStatus_string target)) # extra)
                           (inbox_t d) of
                      Inl err \<Rightarrow> (Inl ConflictError, d)
                    | Inr rows' \<Rightarrow> (Inr (), d\<lparr>inbox_t := rows'\<rparr>)))"

text \<open>
  Modelled from the spec: \<open>new \<rightarrow> processing\<close>, ingestion accepted (\<open>pending\<close> enters the
  same way); \<open>processing \<rightarrow> analyzing\<close>, content extracted; any state except \<open>done\<close> and
  \<open>deleted\<close> \<open>\<rightarrow> archived\<close> on dismissal; \<open>deleted\<close> from any non-terminal state.
\<close>

definition accept :: "string \<Rightarrow> string \<Rightarrow> db \<Rightarrow> (error + unit) \<times> db" where
  "accept teamId itemId = transition teamId itemId (\<lambda>s. s = New \<or> s = Pending) Processing []"

definition extracted :: "string \<Rightarrow> string \<Rightarrow> db \<Rightarrow> (error + unit) \<times> db" where
  "extracted teamId itemId = transition teamId itemId (\<lambda>s. s = Processing) Analyzing []"

definition archive :: "string \<Rightarrow> string \<Rightarrow> db \<Rightarrow> (error + unit) \<times> db" where
  "archive teamId itemId =
     transition teamId itemId (\<lambda>s. s \<noteq> Done \<and> s \<noteq> Deleted) Archived []"

definition delete_item :: "string \<Rightarrow> string \<Rightarrow> db \<Rightarrow> (error + unit) \<times> db" where
  "delete_item teamId itemId =
     transition teamId itemId (\<lambda>s. s \<noteq> Done \<and> s \<noteq> Deleted) Deleted []"

definition suggestion_for :: "string \<Rightarrow> row \<Rightarrow> bool" where
  "suggestion_for itemId r = (col r ''inbox_id'' = TextV itemId)"

text \<open>
  Modelled from the spec: \<open>suggested_match \<rightarrow> done\<close>, a suggestion is accepted: the
  transaction is linked and all other suggestions of the item are invalidated.
\<close>

definition confirm :: "string \<Rightarrow> string \<Rightarrow> string \<Rightarrow> db \<Rightarrow> (error + unit) \<times> db" where
  "confirm teamId itemId transactionId d =
     (if \<not> list_ex (\<lambda>r. suggestion_for itemId r \<and>
                          col r ''transaction_id'' = TextV transactionId) (suggestions_t d)
      then (Inl NotFoundError, d)
      else case transition teamId itemId (\<lambda>s. s = Suggested_match) Done
                  [(''transaction_id'', TextV transactionId)] d of
        (Inl err, d') \<Rightarrow> (Inl err, d)
      | (Inr u, d') \<Rightarrow>
          (Inr (), d'\<lparr>suggestions_t :=
             delete_rows (\<lambda>r. suggestion_for itemId r \<and>
                              col r ''transaction_id'' \<noteq> TextV transactionId)
               (suggestions_t d')\<rparr>))"

text \<open>
  The best of the scored candidates: the highest score, the tie-break deciding between
  equal scores.
\<close>

fun best_of :: "(row \<Rightarrow> row \<Rightarrow> bool) \<Rightarrow> (row \<times> number) list \<Rightarrow> (row \<times> number) option" where
  "best_of better [] = None"
| "best_of better (c # cs) =
     (case best_of better cs of
        None \<Rightarrow> Some c
      | Some b \<Rightarrow>
          if num_less (snd b) (snd c) \<or> (snd b = snd c \<and> better (fst c) (fst b))
          then Some c else Some b)"

text \<open>One suggestion row for each kept candidate; \<open>gen\<close> gives the identifier of the row.\<close>

fun insert_suggestions ::
  "(string \<Rightarrow> string) \<Rightarrow> int \<Rightarrow> string \<Rightarrow> (row \<times> number) list \<Rightarrow> row list
   \<Rightarrow> db_error + row list" where
  "insert_suggestions gen n itemId [] rows = Inr rows"
| "insert_suggestions gen n itemId ((t, s) # cs) rows =
     (case insert_row \<lparr>gen_uuid = (\<lambda>c. gen (case col t ''id'' of TextV i \<Rightarrow> i | _ \<Rightarrow> [])),
                        now = n\<rparr>
             transactionMatchSuggestions
             [(''transaction_id'', col t ''id''),
              (''inbox_id'', TextV itemId),
              (''score'', RealV s)] rows of
        Inl err \<Rightarrow> Inl err
      | Inr rows' \<Rightarrow> insert_suggestions gen n itemId cs rows')"

text \<open>
  The end of an analysis: the suggestions of the item are replaced by the kept ones and
  the status, with the linked transaction if any, is written; all or nothing.
\<close>

definition commit_analysis ::
  "(string \<Rightarrow> string) \<Rightarrow> int \<Rightarrow> string \<Rightarrow> string \<Rightarrow> InboxStatus \<Rightarrow> row
   \<Rightarrow> (row \<times> number) list \<Rightarrow> db \<Rightarrow> (error + unit) \<times> db" where
  "commit_analysis gen n teamId itemId target extra keep d =
     (case insert_suggestions gen n itemId keep
             (delete_rows (suggestion_for itemId) (suggestions_t d)) of
        Inl err \<Rightarrow> (Inl ConflictError, d)
      | Inr suggestions' \<Rightarrow>
          (case update_rows inbox (inbox_item teamId itemId)
                  ((''status'', TextV (inboxStatus_string target)) # extra) (inbox_t d) of
             Inl err \<Rightarrow> (Inl ConflictError, d)
           | Inr rows' \<Rightarrow> (Inr (), d\<lparr>inbox_t := rows', suggestions_t := suggestions'\<rparr>)))"

text \<open>
  Modelled from the spec: the outcome of the analysis of an item (section 4.2).  The
  candidates are the transactions of the team in the matching window; a candidate without
  score is left out.  When no candidate exceeds \<open>T_review\<close> the item goes to \<open>no_match\<close>
  with no suggestion; when the best candidate exceeds \<open>T_auto\<close> it is confirmed at once
  (\<open>done\<close>, transaction linked, its suggestion the only one); otherwise the item goes to
  \<open>suggested_match\<close> with one suggestion for each candidate above \<open>T_review\<close>.
\<close>

definition analysis_outcome ::
  "engine_cfg \<Rightarrow> string \<Rightarrow> row \<Rightarrow> row list \<Rightarrow> InboxStatus \<times> row \<times> (row \<times> number) list"
  where
  "analysis_outcome cfg teamId item txs =
     (let candidates = filter (\<lambda>t. col t ''team_id'' = TextV teamId \<and> in_window cfg item t) txs;
          scored = List.map_filter (\<lambda>t. map_option (Pair t) (score cfg item t)) candidates;
          above = filter (\<lambda>c. exceeds (snd c) (t_review cfg)) scored
      in case best_of (tie_break cfg item) above of
           None \<Rightarrow> (No_match, [], [])
         | Some b \<Rightarrow>
             if exceeds (snd b) (t_auto cfg)
             then (Done, [(''transaction_id'', col (fst b) ''id'')], [b])
             else (Suggested_match, [], above))"

text \<open>
  Modelled from the spec: the analysis job of an item, run on an item in \<open>analyzing\<close> and
  re-run on one in \<open>suggested_match\<close> or \<open>no_match\<close>; on an item in any other state the
  job aborts silently (section 5).  The suggestions are computed from scratch and replace
  the stored ones of the item.
\<close>

definition analyze ::
  "engine_cfg \<Rightarrow> (string \<Rightarrow> string) \<Rightarrow> int \<Rightarrow> string \<Rightarrow> string \<Rightarrow> db
   \<Rightarrow> (error + unit) \<times> db" where
  "analyze cfg gen n teamId itemId d =
     (case find (inbox_item teamId itemId) (inbox_t d) of
        None \<Rightarrow> (Inl NotFoundError, d)
      | Some item \<Rightarrow>
          (case status_of item of
             None \<Rightarrow> (Inl ConflictError, d)
           | Some s \<Rightarrow>
               if s \<noteq> Analyzing \<and> s \<noteq> Suggested_match \<and> s \<noteq> No_match then (Inr (), d)
               else case analysis_outcome cfg teamId item (transactions_t d) of
                      (target, extra, keep) \<Rightarrow>
                        commit_analysis gen n teamId itemId target extra keep d))"

text \<open>The operations of the core on the stored state.\<close>

datatype op =
    IngestTransaction ledger_ctx env string externalRecord
  | IngestInboxItem env string string inbox_payload bool
  | Accept string string
  | Extracted string string
  | Analyze "string \<Rightarrow> string" int string string
  | Confirm string string string
  | Archive string string
  | Delete string string

fun step :: "engine_cfg \<Rightarrow> op \<Rightarrow> db \<Rightarrow> (error + unit) \<times> db" where
  "step cfg (IngestTransaction ctx e teamId rec) d =
     (case ingestTransaction ctx e teamId rec (transactions_t d) of
        (Inl err, rows') \<Rightarrow> (Inl err, d)
      | (Inr res, rows') \<Rightarrow> (Inr (), d\<lparr>transactions_t := rows'\<rparr>))"
| "step cfg (IngestInboxItem e teamId referenceId payload manual) d =
     ingestInboxItem e teamId referenceId payload manual d"
| "step cfg (Accept teamId itemId) d = accept teamId itemId d"
| "step cfg (Extracted teamId itemId) d = extracted teamId itemId d"
| "step cfg (Analyze gen n teamId itemId) d = analyze cfg gen n teamId itemId d"
| "step cfg (Confirm teamId itemId transactionId) d = confirm teamId itemId transactionId d"
| "step cfg (Archive teamId itemId) d = archive teamId itemId d"
| "step cfg (Delete teamId itemId) d = delete_item teamId itemId d"

text \<open>A run: the operations one after the other, a failed one changing nothing.\<close>

definition run :: "engine_cfg \<Rightarrow> op list \<Rightarrow> db \<Rightarrow> db" where
  "run cfg ops d = foldl (\<lambda>d' o'. snd (step cfg o' d')) d ops"

text \<open>The status of the inbox item with a given identifier, if there is one.\<close>

definition item_status :: "db \<Rightarrow> string \<Rightarrow> InboxStatus option" where
  "item_status d itemId =
     (case find (\<lambda>r. col r ''id'' = TextV itemId) (inbox_t d) of
        None \<Rightarrow> None
      | Some r \<Rightarrow> status_of r)"

text \<open>The properties of the stored state that the claims are about.\<close>

definition links_ok :: "db \<Rightarrow> bool" where
  "links_ok d =
     list_all (\<lambda>r. col r ''status'' = TextV ''done'' \<or> col r ''transaction_id'' = Null)
       (inbox_t d)"

definition suggestion_pair :: "row \<Rightarrow> val \<times> val" where
  "suggestion_pair r = (col r ''transaction_id'', col r ''inbox_id'')"

definition score_in_range :: "row \<Rightarrow> bool" where
  "score_in_range r = (case col r ''score'' of RealV s \<Rightarrow> in_unit_interval s | _ \<Rightarrow> False)"

definition suggestions_ok :: "db \<Rightarrow> bool" where
  "suggestions_ok d =
     (distinct (map suggestion_pair (suggestions_t d)) \<and>
      list_all score_in_range (suggestions_t d))"

definition tables_ok :: "db \<Rightarrow> bool" where
  "tables_ok d =
     (table_ok transactions (transactions_t d) \<and> table_ok inbox (inbox_t d) \<and>
      table_ok transactionMatchSuggestions (suggestions_t d))"

text \<open>
  One step of an item along the graph: the status stays, or moves along an edge, or the
  item is created as \<open>new\<close> or \<open>pending\<close>.
\<close>

definition follows_graph :: "InboxStatus option \<Rightarrow> InboxStatus option \<Rightarrow> bool" where
  "follows_graph a b =
     (a = b \<or> (\<exists>s s'. a = Some s \<and> b = Some s' \<and> inbox_edge s s')
      \<or> (a = None \<and> (b = Some New \<or> b = Some Pending)))"

definition inbox_inv :: "db \<Rightarrow> bool" where
  "inbox_inv d = (table_ok inbox (inbox_t d) \<and> links_ok d)"


definition suggestions_inv :: "db \<Rightarrow> bool" where
  "suggestions_inv d = (table_ok transactions (transactions_t d) \<and> suggestions_ok d)"

section \<open>Example data\<close>

definition ex_env :: "string \<Rightarrow> env" where
  "ex_env tag = \<lparr>gen_uuid = (\<lambda>c. c @ tag), now = 1704844800\<rparr>"

definition ex_invoice_values :: "string \<Rightarrow> string \<Rightarrow> row" where
  "ex_invoice_values team n =
     [(''team_id'', TextV team), (''invoice_number'', TextV n),
      (''issue_date'', TextV ''2024-01-10'')]"

definition ex_invoice_1 :: row where
  "ex_invoice_1 = apply_defaults (ex_env ''-1'') invoices (ex_invoice_values ''team-a'' ''INV-0001'')"

definition ex_invoice_2 :: row where
  "ex_invoice_2 = apply_defaults (ex_env ''-2'') invoices (ex_invoice_values ''team-b'' ''INV-0002'')"

definition ex_invoice_unpaid :: row where
  "ex_invoice_unpaid = apply_defaults (ex_env ''-3'') invoices
     ((''status'', TextV ''unpaid'') # ex_invoice_values ''team-a'' ''INV-0003'')"

definition ex_invoice_void :: row where
  "ex_invoice_void = apply_defaults (ex_env ''-4'') invoices
     ((''status'', TextV ''void'') # ex_invoice_values ''team-a'' ''INV-0004'')"

definition ex_transaction_values :: row where
  "ex_transaction_values =
     [(''date'', TextV ''2024-01-10''), (''name'', TextV ''Coffee''),
      (''method'', TextV ''card_purchase''),
      (''amount'', RealV (Finite (3602879701896397 / 36028797018963968))),
      (''currency'', TextV ''USD''), (''team_id'', TextV ''team-a''),
      (''internal_id'', TextV ''team-a_tx-1'')]"

definition ex_transaction :: row where
  "ex_transaction = apply_defaults (ex_env ''-1'') transactions ex_transaction_values"

definition ex_ctx :: ledger_ctx where
  "ex_ctx = \<lparr>base_currency = (\<lambda>t. ''USD''), convert = (\<lambda>a from to asOf. Some a)\<rparr>"

definition ex_record :: externalRecord where
  "ex_record = \<lparr>er_internal_id = ''team-a_tx-1'', er_date = ''2024-01-10'',
     er_name = ''Coffee'', er_amount = Finite 100, er_currency = ''USD'',
     er_method = ''card_purchase'', er_bank_account_id = ''acct-1''\<rparr>"

definition ex_ingested :: row where
  "ex_ingested = apply_defaults (ex_env ''-1'') transactions
     ((''team_id'', TextV ''team-a'') # (''internal_id'', TextV ''team-a_tx-1'') #
      record_fields ex_record @
      [(''base_amount'', RealV (Finite 100)), (''base_currency'', TextV ''USD'')])"

definition ex_record_tenth :: externalRecord where
  "ex_record_tenth = \<lparr>er_internal_id = ''team-a_tx-2'', er_date = ''2024-01-10'',
     er_name = ''Coffee'', er_amount = Finite (3602879701896397 / 36028797018963968),
     er_currency = ''USD'', er_method = ''card_purchase'', er_bank_account_id = ''acct-1''\<rparr>"

definition ex_ingested_tenth :: row where
  "ex_ingested_tenth = apply_defaults (ex_env ''-1'') transactions
     ((''team_id'', TextV ''team-a'') # (''internal_id'', TextV ''team-a_tx-2'') #
      record_fields ex_record_tenth @
      [(''base_amount'', RealV (Finite (3602879701896397 / 36028797018963968))),
       (''base_currency'', TextV ''USD'')])"

definition ex_cfg :: engine_cfg where
  "ex_cfg = \<lparr>t_auto = 9 / 10, t_review = 1 / 2, in_window = (\<lambda>i t. True),
     score = (\<lambda>i t. Some (Finite (3152519739159347 / 4503599627370496))),
     tie_break = (\<lambda>i a b. False)\<rparr>"

definition ex_done_item :: row where
  "ex_done_item = apply_defaults (ex_env ''-1'') inbox
     [(''team_id'', TextV ''team-a''), (''reference_id'', TextV ''ref-1''),
      (''status'', TextV ''done''), (''transaction_id'', TextV ''tx-1'')]"

definition ex_db_done :: db where
  "ex_db_done = \<lparr>transactions_t = [], inbox_t = [ex_done_item], suggestions_t = []\<rparr>"

definition ex_payload :: inbox_payload where
  "ex_payload = \<lparr>p_amount = Some (Finite 100), p_currency = Some ''USD'',
     p_date = Some ''2024-01-11'', p_attachments = None\<rparr>"

definition ex_new_item :: row where
  "ex_new_item = apply_defaults (ex_env ''-1'') inbox
     [(''team_id'', TextV ''team-a''), (''reference_id'', TextV ''ref-1''),
      (''status'', TextV ''new''), (''amount'', RealV (Finite 100)),
      (''currency'', TextV ''USD''), (''date'', TextV ''2024-01-11''),
      (''attachments'', Null)]"



section \<open>Properties of the number model\<close>

lemma round_double_zero: "round_double 0 = Finite 0"
  by (simp add: round_double_def)

lemma array_includes_set: "array_includes xs v \<longleftrightarrow> v \<in> set xs"
  by (induction xs) auto

section \<open>Supported currencies\<close>

text \<open>
  C10.  \<open>isSupportedCurrency c\<close> is true exactly when \<open>c\<close> is one of the ten codes USD, EUR,
  GBP, JPY, AUD, CAD, CHF, CNY, SEK, NZD.  The comparison is case-sensitive: the lowercase
  string \<open>usd\<close> is not supported.
\<close>

theorem isSupportedCurrency_iff:
  "(isSupportedCurrency c \<longleftrightarrow>
      c = ''USD'' \<or> c = ''EUR'' \<or> c = ''GBP'' \<or> c = ''JPY'' \<or> c = ''AUD'' \<or>
      c = ''CAD'' \<or> c = ''CHF'' \<or> c = ''CNY'' \<or> c = ''SEK'' \<or> c = ''NZD'')
   \<and> \<not> isSupportedCurrency ''usd''"
proof
  show "isSupportedCurrency c \<longleftrightarrow>
      c = ''USD'' \<or> c = ''EUR'' \<or> c = ''GBP'' \<or> c = ''JPY'' \<or> c = ''AUD'' \<or>
      c = ''CAD'' \<or> c = ''CHF'' \<or> c = ''CNY'' \<or> c = ''SEK'' \<or> c = ''NZD''"
    unfolding isSupportedCurrency_def array_includes_set currencies_def
    by auto
  show "\<not> isSupportedCurrency ''usd''"
    by (simp add: isSupportedCurrency_def currencies_def)
qed

section \<open>Tax computation\<close>

lemma round_double_one_percent:
  "round_double (1 / 100) = Finite (5764607523034235 / 576460752303423488)"
  by code_simp

lemma calculateTax_3_1:
  "calculateTax (Finite 3) (Finite 1) = Finite (1080863910568919 / 36028797018963968)"
proof -
  have "round_double (3 * (5764607523034235 / 576460752303423488))
        = Finite (1080863910568919 / 36028797018963968)"
    by code_simp
  then show ?thesis
    by (simp add: calculateTax_def round_double_one_percent)
qed

lemma calculateAmountWithTax_3_1:
  "calculateAmountWithTax (Finite 3) (Finite 1) = Finite (6822953435466301 / 2251799813685248)"
proof -
  have "round_double (3 + 1080863910568919 / 36028797018963968)
        = Finite (6822953435466301 / 2251799813685248)"
    by code_simp
  then show ?thesis
    by (simp add: calculateAmountWithTax_def calculateTax_3_1)
qed

lemma product_form_3_1:
  "fmul (Finite 3) (fadd (Finite 1) (fdiv100 (Finite 1)))
   = Finite (3411476717733151 / 1125899906842624)"
proof -
  have a: "round_double (1 + 5764607523034235 / 576460752303423488)
        = Finite (4548635623644201 / 4503599627370496)"
    by code_simp
  have b: "round_double (3 * (4548635623644201 / 4503599627370496))
        = Finite (3411476717733151 / 1125899906842624)"
    by code_simp
  show ?thesis
    using a b by (simp add: round_double_one_percent)
qed

text \<open>
  C9, as stated, fails.  With amount 3 and rate 1 the code returns the binary64 value
  3.03 while \<open>amount * (1 + rate / 100)\<close> evaluates to 3.0300000000000002, and neither is
  the exact decimal \<open>303/100\<close>; with amount \<open>Infinity\<close> and rate 0 the code returns NaN,
  not the amount.
\<close>

theorem calculateAmountWithTax_counterexample:
  "calculateAmountWithTax (Finite 3) (Finite 1)
     \<noteq> fmul (Finite 3) (fadd (Finite 1) (fdiv100 (Finite 1)))
   \<and> calculateAmountWithTax (Finite 3) (Finite 1) \<noteq> Finite (3 * (1 + 1 / 100))
   \<and> calculateAmountWithTax PosInfinity (Finite 0) \<noteq> PosInfinity"
proof (intro conjI)
  show "calculateAmountWithTax (Finite 3) (Finite 1)
     \<noteq> fmul (Finite 3) (fadd (Finite 1) (fdiv100 (Finite 1)))"
    unfolding calculateAmountWithTax_3_1 product_form_3_1 by simp
  show "calculateAmountWithTax (Finite 3) (Finite 1) \<noteq> Finite (3 * (1 + 1 / 100))"
    unfolding calculateAmountWithTax_3_1 by simp
  show "calculateAmountWithTax PosInfinity (Finite 0) \<noteq> PosInfinity"
    by (simp add: calculateAmountWithTax_def calculateTax_def round_double_zero)
qed

text \<open>
  C9, amended.  For all numbers, \<open>calculateAmountWithTax amount rate\<close> is the rounded sum of
  \<open>amount\<close> and \<open>calculateTax amount rate\<close>, which is the rounded product of \<open>amount\<close> and
  the rounded quotient \<open>rate / 100\<close>; and for every finite binary64 amount a zero rate is
  an identity: \<open>calculateAmountWithTax amount 0 = amount\<close>.
\<close>

theorem calculateAmountWithTax_amended:
  "calculateAmountWithTax amount rate = fadd amount (calculateTax amount rate)
   \<and> calculateTax amount rate = fmul amount (fdiv100 rate)
   \<and> (is_double (Finite a) \<longrightarrow> calculateAmountWithTax (Finite a) (Finite 0) = Finite a)"
  by (simp add: calculateAmountWithTax_def calculateTax_def round_double_zero is_double_def)

theorem calculateAmountWithTax_amended_witness:
  "is_double (Finite 3) \<and> calculateAmountWithTax (Finite 3) (Finite 0) = Finite 3"
proof -
  have h: "is_double (Finite 3)"
    unfolding is_double_def by code_simp
  with calculateAmountWithTax_amended [of "Finite 3" "Finite 0" 3] show ?thesis
    by blast
qed

section \<open>Constraints hold in every table state\<close>

lemma bind_simps [simp]:
  "bind c Null = Null"
  "bind c (IntV i) = IntV i"
  "bind c (TextV s) = TextV s"
  "bind c (RealV NaN) = Null"
  "bind c (RealV PosInfinity) = Null"
  "bind c (RealV NegInfinity) = Null"
  "ctype c \<noteq> INTEGER \<Longrightarrow> bind c (RealV (Finite q)) = RealV (Finite q)"
  by (simp_all add: bind_def)

lemma fst_apply_defaults: "map fst (apply_defaults e t vs) = map cname (columns t)"
  by (simp add: apply_defaults_def comp_def)

lemma fst_set_cols: "map fst (set_cols sets r) = map fst r"
  by (induction r) (auto simp: set_cols_def)

lemma key_distinct_append:
  "key_distinct K rows \<Longrightarrow> key_null K r \<or> (\<forall>r' \<in> set rows. key_of K r' \<noteq> key_of K r)
   \<Longrightarrow> key_distinct K (rows @ [r])"
  by (auto simp: key_distinct_def)

lemma key_distinct_filter: "key_distinct K rows \<Longrightarrow> key_distinct K (filter p rows)"
proof -
  have eq: "filter (\<lambda>r. \<not> key_null K r) (filter p rows)
            = filter p (filter (\<lambda>r. \<not> key_null K r) rows)"
    by (induction rows) auto
  assume "key_distinct K rows"
  then show ?thesis
    unfolding key_distinct_def eq by (rule distinct_map_filter)
qed

lemma insert_row_result:
  assumes "insert_row e t vs rows = Inr rows'"
  shows "rows' = rows @ [apply_defaults e t vs]" and "values_typed e t vs"
    and "not_null_ok t (apply_defaults e t vs)" and "unique_ok t rows (apply_defaults e t vs)"
  using assms by (auto simp: insert_row_def Let_def split: if_splits)

lemma update_rows_result:
  assumes "update_rows t w sets rows = Inr rows'"
  shows "rows' = map (\<lambda>r. if w r then set_cols (bind_sets t sets) r else r) rows"
    and "sets_typed t sets" and "list_all (not_null_ok t) rows'"
    and "list_all (\<lambda>K. key_distinct K rows') (unique_keys t)"
  using assms by (auto simp: update_rows_def Let_def split: if_splits)

lemma table_ok_insert:
  assumes "table_ok t rows" and "insert_row e t vs rows = Inr rows'"
  shows "table_ok t rows'"
proof -
  define r where "r = apply_defaults e t vs"
  note res = insert_row_result [OF assms(2), folded r_def]
  have "row_ok t r"
    using res(3) by (simp add: row_ok_def r_def fst_apply_defaults)
  moreover have "key_distinct K (rows @ [r])" if "K \<in> set (unique_keys t)" for K
  proof (rule key_distinct_append)
    show "key_distinct K rows"
      using assms(1) that by (auto simp: table_ok_def list_all_iff)
    show "key_null K r \<or> (\<forall>r' \<in> set rows. key_of K r' \<noteq> key_of K r)"
      using res(4) that by (auto simp: unique_ok_def list_all_iff)
  qed
  ultimately show ?thesis
    using assms(1) by (auto simp: table_ok_def res(1) list_all_iff)
qed

lemma table_ok_update:
  assumes "table_ok t rows" and "update_rows t w sets rows = Inr rows'"
  shows "table_ok t rows'"
proof -
  note res = update_rows_result [OF assms(2)]
  have "map fst r = map cname (columns t)" if "r \<in> set rows'" for r
    using that assms(1)
    by (auto simp: res(1) table_ok_def row_ok_def list_all_iff fst_set_cols split: if_splits)
  then show ?thesis
    using res(3,4) by (auto simp: table_ok_def row_ok_def list_all_iff)
qed

lemma table_ok_delete: "table_ok t rows \<Longrightarrow> table_ok t (delete_rows w rows)"
  by (auto simp: table_ok_def delete_rows_def list_all_iff key_distinct_filter)

lemma table_ok_empty: "table_ok t []"
  by (simp add: table_ok_def key_distinct_def list_all_iff)

lemma reachable_table_ok: "reachable t rows \<Longrightarrow> table_ok t rows"
  by (induction rule: reachable.induct)
     (auto intro: table_ok_empty table_ok_insert table_ok_update table_ok_delete)

lemma distinct_map_filter_nth:
  "distinct (map f (filter P xs)) \<Longrightarrow> i < j \<Longrightarrow> j < length xs \<Longrightarrow> P (xs ! i)
   \<Longrightarrow> P (xs ! j) \<Longrightarrow> f (xs ! i) \<noteq> f (xs ! j)"
proof (induction xs arbitrary: i j)
  case Nil
  then show ?case by simp
next
  case (Cons x xs)
  from Cons.prems(2) obtain j' where j: "j = Suc j'"
    by (cases j) auto
  show ?case
  proof (cases i)
    case 0
    have "xs ! j' \<in> set (filter P xs)"
      using Cons.prems(3,5) j by simp
    then have "f (xs ! j') \<in> f ` set (filter P xs)"
      by (rule imageI)
    moreover have "f x \<notin> f ` set (filter P xs)"
      using Cons.prems(1,4) 0 by simp
    ultimately show ?thesis
      using 0 j by auto
  next
    case (Suc i')
    have "distinct (map f (filter P xs))"
      using Cons.prems(1) by (simp split: if_splits)
    from Cons.IH [OF this, of i' j'] show ?thesis
      using Cons.prems Suc j by simp
  qed
qed

lemma key_distinct_nth:
  assumes "key_distinct K rows" and "i < j" and "j < length rows"
    and "\<not> key_null K (rows ! i)"
  shows "key_of K (rows ! i) \<noteq> key_of K (rows ! j)"
proof (cases "key_null K (rows ! j)")
  case True
  with assms(4) show ?thesis
    by (auto simp: key_null_def)
next
  case False
  with assms show ?thesis
    unfolding key_distinct_def
    by (intro distinct_map_filter_nth [where P = "\<lambda>r. \<not> key_null K r"]) auto
qed

lemma key_distinct_same_row:
  assumes "key_distinct K rows" and "r \<in> set rows" and "r' \<in> set rows"
    and "key_of K r = key_of K r'" and "\<not> key_null K r"
  shows "r = r'"
proof -
  let ?xs = "filter (\<lambda>r. \<not> key_null K r) rows"
  have "inj_on (key_of K) (set ?xs)"
    using assms(1) by (simp add: key_distinct_def distinct_map)
  moreover have "r \<in> set ?xs" "r' \<in> set ?xs"
    using assms(2-5) by (auto simp: key_null_def)
  ultimately show ?thesis
    using assms(4) by (auto dest: inj_onD)
qed


lemma unique_ok_Nil: "unique_ok t [] r"
  by (simp add: unique_ok_def list_all_iff)

lemma insert_row_ok:
  "values_typed e t vs \<Longrightarrow> not_null_ok t (apply_defaults e t vs)
   \<Longrightarrow> unique_ok t rows (apply_defaults e t vs)
   \<Longrightarrow> insert_row e t vs rows = Inr (rows @ [apply_defaults e t vs])"
  by (simp add: insert_row_def)

lemma col_apply_defaults:
  "col (apply_defaults e t vs) n =
     (case find (\<lambda>c. cname c = n) (columns t) of
        None \<Rightarrow> Null
      | Some c \<Rightarrow> bind c (value_for e vs c))"
proof -
  have "map_of (map (\<lambda>c. (cname c, f c)) cs) n =
        map_option f (find (\<lambda>c. cname c = n) cs)" for f :: "column \<Rightarrow> val" and cs
    by (induction cs) auto
  then show ?thesis
    by (simp add: col_def apply_defaults_def split: option.splits)
qed

lemma col_apply_defaults_cname:
  assumes "distinct (map cname cs)" and "c \<in> set cs"
  shows "find (\<lambda>c'. cname c' = cname c) cs = Some c"
  using assms by (induction cs) (auto simp: image_iff)

lemma not_null_ok_apply_defaults:
  assumes "distinct (map cname (columns t))"
  shows "not_null_ok t (apply_defaults e t vs) \<longleftrightarrow>
     list_all (\<lambda>c. \<not> not_null c \<or> bind c (value_for e vs c) \<noteq> Null) (columns t)"
  using col_apply_defaults_cname [OF assms]
  by (simp add: not_null_ok_def list_all_iff col_apply_defaults)

lemma map_of_set_cols:
  "map_of (set_cols S r) c =
     map_option (\<lambda>v. case map_of S c of Some v' \<Rightarrow> v' | None \<Rightarrow> v) (map_of r c)"
  by (induction r) (auto simp: set_cols_def split: option.splits)

lemma col_set_cols:
  "col (set_cols S r) c =
     (case map_of r c of None \<Rightarrow> Null
      | Some v \<Rightarrow> (case map_of S c of Some v' \<Rightarrow> v' | None \<Rightarrow> v))"
  by (simp add: col_def map_of_set_cols split: option.splits)

lemma col_set_cols_other: "map_of S c = None \<Longrightarrow> col (set_cols S r) c = col r c"
  by (simp add: col_def map_of_set_cols split: option.splits)

lemma map_of_bind_sets:
  "map_of (bind_sets t S) n =
     map_option (\<lambda>v. case column_of t n of Some c \<Rightarrow> bind c v | None \<Rightarrow> v) (map_of S n)"
  by (induction S) (auto simp: bind_sets_def split: option.splits)

lemma map_of_bind_sets_None [simp]:
  "map_of (bind_sets t S) n = None \<longleftrightarrow> map_of S n = None"
  by (simp add: map_of_bind_sets)

lemma map_of_bind_sets_text:
  "map_of S n = Some (TextV s) \<Longrightarrow> map_of (bind_sets t S) n = Some (TextV s)"
  by (simp add: map_of_bind_sets split: option.splits)

section \<open>Stored values have the type of their column\<close>

lemma has_type_stored: "has_type c v \<Longrightarrow> stored_ok c (bind c v)"
  by (cases v) (auto simp: has_type_def stored_ok_def bind_def isFinite_def split: number.splits)

lemma types_ok_inserted:
  assumes "distinct (map cname (columns t))" and "values_typed e t vs"
  shows "types_ok t (apply_defaults e t vs)"
  using col_apply_defaults_cname [OF assms(1)] assms(2)
  by (simp add: types_ok_def values_typed_def list_all_iff col_apply_defaults has_type_stored)

lemma types_ok_set_cols:
  assumes d: "distinct (map cname (columns t))" and r: "types_ok t r" and S: "sets_typed t S"
  shows "types_ok t (set_cols (bind_sets t S) r)"
proof -
  have "stored_ok c (col (set_cols (bind_sets t S) r) (cname c))" if c: "c \<in> set (columns t)" for c
  proof (cases "map_of r (cname c)")
    case None
    then show ?thesis
      by (simp add: col_set_cols stored_ok_def)
  next
    case (Some v)
    have old: "stored_ok c v"
      using r c Some by (auto simp: types_ok_def list_all_iff col_def)
    have co: "column_of t (cname c) = Some c"
      using col_apply_defaults_cname [OF d c] by (simp add: column_of_def)
    show ?thesis
    proof (cases "map_of S (cname c)")
      case None
      then show ?thesis
        using Some old by (simp add: col_set_cols map_of_bind_sets)
    next
      case new: (Some v')
      have "has_type c v'"
        using S c new by (auto simp: sets_typed_def list_all_iff)
      then show ?thesis
        using Some new co by (simp add: col_set_cols map_of_bind_sets has_type_stored)
    qed
  qed
  then show ?thesis
    by (simp add: types_ok_def list_all_iff)
qed

lemma reachable_types_ok:
  assumes "distinct (map cname (columns t))" and "reachable t rows"
  shows "list_all (types_ok t) rows"
  using assms(2)
proof (induction rule: reachable.induct)
  case empty
  then show ?case by simp
next
  case (inserted rows e vs rows')
  note res = insert_row_result [OF inserted(2)]
  from inserted(3) types_ok_inserted [OF assms(1) res(2)] show ?case
    by (simp add: res(1))
next
  case (updated rows w sets rows')
  note res = update_rows_result [OF updated(2)]
  from updated(3) types_ok_set_cols [OF assms(1) _ res(2)] show ?case
    by (auto simp: res(1) list_all_iff)
next
  case (deleted rows w)
  then show ?case
    by (simp add: delete_rows_def list_all_iff)
qed

section \<open>Invoice numbers and tokens\<close>

lemma distinct_invoices_columns: "distinct (map cname (columns invoices))"
  by (simp add: invoices_def column_defs)

lemma unique_keys_invoices:
  "unique_keys invoices = [[''id''], [''invoice_number''], [''token'']]"
  by (simp add: unique_keys_def invoices_def column_defs)

lemma invoice_number_not_null: "not_null_ok invoices r \<Longrightarrow> col r ''invoice_number'' \<noteq> Null"
  by (simp add: not_null_ok_def invoices_def column_defs)

lemma ex_invoice_1_ok:
  "values_typed (ex_env ''-1'') invoices (ex_invoice_values ''team-a'' ''INV-0001'')"
  "not_null_ok invoices ex_invoice_1"
  unfolding ex_invoice_1_def values_typed_def
    not_null_ok_apply_defaults [OF distinct_invoices_columns]
  by (simp_all add: invoices_def column_defs ex_invoice_values_def default_value_def
      value_for_def has_type_def)

lemma insert_invoice_1: "insert_row (ex_env ''-1'') invoices
    (ex_invoice_values ''team-a'' ''INV-0001'') [] = Inr [ex_invoice_1]"
  using insert_row_ok [of "ex_env ''-1''" invoices "ex_invoice_values ''team-a'' ''INV-0001''" "[]"]
    ex_invoice_1_ok unique_ok_Nil
  by (simp add: ex_invoice_1_def)

lemma ex_invoice_keys:
  "key_of [''id''] ex_invoice_1 = [TextV ''id-1'']"
  "key_of [''invoice_number''] ex_invoice_1 = [TextV ''INV-0001'']"
  "key_of [''token''] ex_invoice_1 = [TextV ''token-1'']"
  "key_of [''id''] ex_invoice_2 = [TextV ''id-2'']"
  "key_of [''invoice_number''] ex_invoice_2 = [TextV ''INV-0002'']"
  "key_of [''token''] ex_invoice_2 = [TextV ''token-2'']"
  by (simp_all add: key_of_def ex_invoice_1_def ex_invoice_2_def col_apply_defaults invoices_def
      column_defs ex_invoice_values_def default_value_def ex_env_def value_for_def)

lemma ex_invoice_2_ok:
  "values_typed (ex_env ''-2'') invoices (ex_invoice_values ''team-b'' ''INV-0002'')"
  "not_null_ok invoices ex_invoice_2"
  unfolding ex_invoice_2_def values_typed_def
    not_null_ok_apply_defaults [OF distinct_invoices_columns]
  by (simp_all add: invoices_def column_defs ex_invoice_values_def default_value_def
      value_for_def has_type_def)

lemma insert_invoice_2: "insert_row (ex_env ''-2'') invoices
    (ex_invoice_values ''team-b'' ''INV-0002'') [ex_invoice_1] = Inr [ex_invoice_1, ex_invoice_2]"
proof -
  have "unique_ok invoices [ex_invoice_1] ex_invoice_2"
    by (simp add: unique_ok_def unique_keys_invoices ex_invoice_keys key_null_def)
  with insert_row_ok [of "ex_env ''-2''" invoices "ex_invoice_values ''team-b'' ''INV-0002''"
      "[ex_invoice_1]"] ex_invoice_2_ok
  show ?thesis
    by (simp add: ex_invoice_2_def)
qed

text \<open>
  C2.  In every state of the invoices table no two invoices share an invoice number,
  whatever their teams (the unique index is on \<open>invoice_number\<close> alone, so in particular
  no two invoices of one team share a number), and no two invoices share a token.
\<close>

theorem invoice_number_and_token_unique:
  assumes "reachable invoices rows" and "i \<noteq> j" and "i < length rows" and "j < length rows"
  shows "col (rows ! i) ''invoice_number'' \<noteq> col (rows ! j) ''invoice_number''
       \<and> (col (rows ! i) ''token'' = col (rows ! j) ''token'' \<longrightarrow> col (rows ! i) ''token'' = Null)"
proof -
  have ok: "table_ok invoices rows"
    using assms(1) by (rule reachable_table_ok)
  then have kd: "key_distinct [''invoice_number''] rows" "key_distinct [''token''] rows"
    by (simp_all add: table_ok_def unique_keys_invoices)
  have nn: "\<not> key_null [''invoice_number''] (rows ! k)" if "k < length rows" for k
  proof -
    have "row_ok invoices (rows ! k)"
      using ok that by (simp add: table_ok_def list_all_length)
    then show ?thesis
      using invoice_number_not_null [of "rows ! k"]
      by (auto simp: row_ok_def key_null_def key_of_def)
  qed
  have num: "key_of [''invoice_number''] (rows ! a) \<noteq> key_of [''invoice_number''] (rows ! b)"
    if "a < b" "b < length rows" for a b
    using key_distinct_nth [OF kd(1) that] nn [of a] that by simp
  have tok: "col (rows ! a) ''token'' = Null"
    if "a < b" "b < length rows" "col (rows ! a) ''token'' = col (rows ! b) ''token''" for a b
  proof (rule ccontr)
    assume "col (rows ! a) ''token'' \<noteq> Null"
    then have "\<not> key_null [''token''] (rows ! a)"
      by (auto simp: key_null_def key_of_def)
    from key_distinct_nth [OF kd(2) that(1,2) this] that(3) show False
      by (simp add: key_of_def)
  qed
  consider "i < j" | "j < i"
    using assms(2) by linarith
  then show ?thesis
  proof cases
    case 1
    from num [OF 1 assms(4)] tok [OF 1 assms(4)] show ?thesis
      by (auto simp: key_of_def)
  next
    case 2
    from num [OF 2 assms(3)] tok [OF 2 assms(3)] show ?thesis
      by (auto simp: key_of_def)
  qed
qed

theorem invoice_number_and_token_unique_witness:
  "reachable invoices [ex_invoice_1, ex_invoice_2] \<and> (0::nat) \<noteq> 1
   \<and> 0 < length [ex_invoice_1, ex_invoice_2] \<and> 1 < length [ex_invoice_1, ex_invoice_2]
   \<and> col ex_invoice_1 ''invoice_number'' \<noteq> col ex_invoice_2 ''invoice_number''
   \<and> col ex_invoice_1 ''token'' \<noteq> col ex_invoice_2 ''token''
   \<and> col ex_invoice_1 ''token'' \<noteq> Null"
proof -
  have r: "reachable invoices [ex_invoice_1, ex_invoice_2]"
    by (rule reachable.inserted [OF reachable.inserted [OF reachable.empty insert_invoice_1]
          insert_invoice_2])
  have t: "col ex_invoice_1 ''token'' \<noteq> Null"
    using ex_invoice_keys(3) by (simp add: key_of_def)
  from invoice_number_and_token_unique [OF r, of 0 1] t r show ?thesis
    by auto
qed

section \<open>Invoice status\<close>

lemma status_column_of_invoices:
  "column_of invoices ''status'' = Some (default_to (TextV ''draft'') (text_col ''status''))"
  by (simp add: column_of_def invoices_def column_defs)

lemma ex_invoice_unpaid_ok:
  "values_typed (ex_env ''-3'') invoices
     ((''status'', TextV ''unpaid'') # ex_invoice_values ''team-a'' ''INV-0003'')"
  "not_null_ok invoices ex_invoice_unpaid"
  "col ex_invoice_unpaid ''status'' = TextV ''unpaid''"
  unfolding ex_invoice_unpaid_def values_typed_def
    not_null_ok_apply_defaults [OF distinct_invoices_columns] col_apply_defaults
  by (simp_all add: invoices_def column_defs ex_invoice_values_def default_value_def
      value_for_def has_type_def)

lemma ex_invoice_void_ok:
  "values_typed (ex_env ''-4'') invoices
     ((''status'', TextV ''void'') # ex_invoice_values ''team-a'' ''INV-0004'')"
  "not_null_ok invoices ex_invoice_void"
  "col ex_invoice_void ''status'' = TextV ''void''"
  unfolding ex_invoice_void_def values_typed_def
    not_null_ok_apply_defaults [OF distinct_invoices_columns] col_apply_defaults
  by (simp_all add: invoices_def column_defs ex_invoice_values_def default_value_def
      value_for_def has_type_def)

text \<open>
  C3, as stated, fails.  The status type of the code has \<open>unpaid\<close>, which is not a state of
  the lifecycle graph, and lacks \<open>sent\<close>; and the column is free text: an invoice with
  status \<open>unpaid\<close>, or with the status \<open>void\<close> that is in neither list, is stored as given.
\<close>

theorem invoice_status_counterexample:
  "array_includes invoiceStatusValues ''unpaid''
   \<and> \<not> array_includes spec_invoice_states ''unpaid''
   \<and> array_includes spec_invoice_states ''sent''
   \<and> \<not> array_includes invoiceStatusValues ''sent''
   \<and> insert_row (ex_env ''-3'') invoices
        ((''status'', TextV ''unpaid'') # ex_invoice_values ''team-a'' ''INV-0003'') []
       = Inr [ex_invoice_unpaid]
   \<and> col ex_invoice_unpaid ''status'' = TextV ''unpaid''
   \<and> insert_row (ex_env ''-4'') invoices
        ((''status'', TextV ''void'') # ex_invoice_values ''team-a'' ''INV-0004'') []
       = Inr [ex_invoice_void]
   \<and> col ex_invoice_void ''status'' = TextV ''void''
   \<and> \<not> array_includes spec_invoice_states ''void''"
proof -
  have a: "insert_row (ex_env ''-3'') invoices
        ((''status'', TextV ''unpaid'') # ex_invoice_values ''team-a'' ''INV-0003'') []
       = Inr [ex_invoice_unpaid]"
    using insert_row_ok [of "ex_env ''-3''" invoices
        "(''status'', TextV ''unpaid'') # ex_invoice_values ''team-a'' ''INV-0003''" "[]"]
      ex_invoice_unpaid_ok unique_ok_Nil
    by (simp add: ex_invoice_unpaid_def)
  have b: "insert_row (ex_env ''-4'') invoices
        ((''status'', TextV ''void'') # ex_invoice_values ''team-a'' ''INV-0004'') []
       = Inr [ex_invoice_void]"
    using insert_row_ok [of "ex_env ''-4''" invoices
        "(''status'', TextV ''void'') # ex_invoice_values ''team-a'' ''INV-0004''" "[]"]
      ex_invoice_void_ok unique_ok_Nil
    by (simp add: ex_invoice_void_def)
  show ?thesis
    using a b ex_invoice_unpaid_ok(3) ex_invoice_void_ok(3)
    by (simp add: invoiceStatusValues_def spec_invoice_states_def)
qed

text \<open>
  C3, amended.  The status type of the code, \<open>InvoiceStatus\<close>, is the closed set of the six
  values draft, overdue, paid, unpaid, canceled, scheduled.  The \<open>status\<close> column of an
  invoice is a nullable text column with default \<open>draft\<close>: an invoice inserted without a
  status is stored with status \<open>draft\<close>, and one inserted with a status is stored with
  that text, whatever it is.
\<close>

theorem invoice_status_amended:
  "(array_includes invoiceStatusValues s \<longleftrightarrow> s \<in> range invoiceStatus_string)
   \<and> inj invoiceStatus_string
   \<and> column_of invoices ''status'' = Some (default_to (TextV ''draft'') (text_col ''status''))
   \<and> (insert_row e invoices vs rows = Inr rows' \<longrightarrow>
        rows' = rows @ [last rows'] \<and>
        col (last rows') ''status'' =
          (case map_of vs ''status'' of None \<Rightarrow> TextV ''draft'' | Some v \<Rightarrow> v))"
proof (intro conjI impI)
  show "array_includes invoiceStatusValues s \<longleftrightarrow> s \<in> range invoiceStatus_string"
  proof
    assume "array_includes invoiceStatusValues s"
    then consider "s = invoiceStatus_string Draft" | "s = invoiceStatus_string Overdue"
      | "s = invoiceStatus_string Paid" | "s = invoiceStatus_string Unpaid"
      | "s = invoiceStatus_string Canceled" | "s = invoiceStatus_string Scheduled"
      by (auto simp: invoiceStatusValues_def split: if_splits)
    then show "s \<in> range invoiceStatus_string"
      by cases (simp_all only: rangeI)
  next
    assume "s \<in> range invoiceStatus_string"
    then obtain st where "s = invoiceStatus_string st" ..
    then show "array_includes invoiceStatusValues s"
      by (cases st) (simp_all add: invoiceStatusValues_def)
  qed
  show "inj invoiceStatus_string"
  proof (rule injI)
    fix x y assume "invoiceStatus_string x = invoiceStatus_string y"
    then show "x = y" by (cases x; cases y) simp_all
  qed
  show "column_of invoices ''status'' = Some (default_to (TextV ''draft'') (text_col ''status''))"
    by (rule status_column_of_invoices)
next
  assume ins: "insert_row e invoices vs rows = Inr rows'"
  note res = insert_row_result [OF ins]
  show "rows' = rows @ [last rows']"
    by (simp add: res(1))
  let ?c = "default_to (TextV ''draft'') (text_col ''status'')"
  have f: "find (\<lambda>c. cname c = ''status'') (columns invoices) = Some ?c"
    using status_column_of_invoices by (simp add: column_of_def)
  then have "?c \<in> set (columns invoices)"
    by (auto simp: find_Some_iff)
  with res(2) have "has_type ?c (value_for e vs ?c)"
    by (auto simp: values_typed_def list_all_iff)
  then have "bind ?c (value_for e vs ?c) = value_for e vs ?c"
    by (cases "value_for e vs ?c") (simp_all add: has_type_def default_to_def text_col_def)
  then show "col (last rows') ''status'' =
          (case map_of vs ''status'' of None \<Rightarrow> TextV ''draft'' | Some v \<Rightarrow> v)"
    by (simp add: res(1) col_apply_defaults f)
       (simp add: value_for_def default_value_def default_to_def text_col_def
          split: option.splits)
qed

theorem invoice_status_amended_witness:
  "insert_row (ex_env ''-1'') invoices (ex_invoice_values ''team-a'' ''INV-0001'') []
     = Inr [ex_invoice_1]
   \<and> [ex_invoice_1] = [] @ [last [ex_invoice_1]]
   \<and> map_of (ex_invoice_values ''team-a'' ''INV-0001'') ''status'' = None
   \<and> col ex_invoice_1 ''status'' = TextV ''draft''"
  using invoice_status_amended [of "''draft''" "ex_env ''-1''"
      "ex_invoice_values ''team-a'' ''INV-0001''" "[]" "[ex_invoice_1]"] insert_invoice_1
  by (simp add: ex_invoice_values_def)

section \<open>The transactions table\<close>


lemma distinct_transactions_columns: "distinct (map cname (columns transactions))"
  by (simp add: transactions_def column_defs)

lemma is_double_examples:
  "is_double (Finite 100)"
  "is_double (Finite (3602879701896397 / 36028797018963968))"
  unfolding is_double_def by code_simp+

section \<open>Ingestion: validation\<close>

lemma ex_ingested_ok:
  "values_typed (ex_env ''-1'') transactions
     ((''team_id'', TextV ''team-a'') # (''internal_id'', TextV ''team-a_tx-1'') #
      record_fields ex_record @
      [(''base_amount'', RealV (Finite 100)), (''base_currency'', TextV ''USD'')])"
  "not_null_ok transactions ex_ingested"
  unfolding ex_ingested_def values_typed_def
    not_null_ok_apply_defaults [OF distinct_transactions_columns]
  by (simp_all add: transactions_def column_defs record_fields_def ex_record_def
      default_value_def value_for_def has_type_def is_double_examples)

lemma ingest_example:
  "ingestTransaction ex_ctx (ex_env ''-1'') ''team-a'' ex_record [] = (Inr Created, [ex_ingested])"
proof -
  have v: "isSupportedCurrency (er_currency ex_record)" "isFinite (er_amount ex_record)"
    by (simp_all add: ex_record_def isSupportedCurrency_def currencies_def isFinite_def)
  have c: "convert ex_ctx (er_amount ex_record) (er_currency ex_record)
      (base_currency ex_ctx ''team-a'') (er_date ex_record) = Some (Finite 100)"
    "base_currency ex_ctx ''team-a'' = ''USD''" "er_internal_id ex_record = ''team-a_tx-1''"
    by (simp_all add: ex_ctx_def ex_record_def)
  have "insert_row (ex_env ''-1'') transactions
     ((''team_id'', TextV ''team-a'') # (''internal_id'', TextV ''team-a_tx-1'') #
      record_fields ex_record @
      [(''base_amount'', RealV (Finite 100)), (''base_currency'', TextV ''USD'')]) []
     = Inr [ex_ingested]"
    using insert_row_ok [of "ex_env ''-1''" transactions _ "[]"] ex_ingested_ok unique_ok_Nil
    by (simp add: ex_ingested_def)
  then show ?thesis
    using v c by (simp add: ingestTransaction_def)
qed

text \<open>
  C6.  \<open>ingestTransaction\<close> fails with \<open>ValidationError\<close>, leaving the stored transactions
  as they were, whenever the currency code of the record is not supported or its amount is
  not finite; with a supported currency and a finite amount it does not fail with
  \<open>ValidationError\<close>.
\<close>

theorem ingestTransaction_validation:
  "(\<not> isSupportedCurrency (er_currency rec) \<or> \<not> isFinite (er_amount rec) \<longrightarrow>
      ingestTransaction ctx e teamId rec rows = (Inl ValidationError, rows))
   \<and> (isSupportedCurrency (er_currency rec) \<and> isFinite (er_amount rec) \<longrightarrow>
      fst (ingestTransaction ctx e teamId rec rows) \<noteq> Inl ValidationError)"
  by (auto simp: ingestTransaction_def Let_def split: option.splits sum.splits)

theorem ingestTransaction_validation_witness:
  "\<not> isSupportedCurrency (er_currency (ex_record\<lparr>er_currency := ''usd''\<rparr>))
   \<and> ingestTransaction ex_ctx (ex_env ''-1'') ''team-a'' (ex_record\<lparr>er_currency := ''usd''\<rparr>)
        [ex_ingested] = (Inl ValidationError, [ex_ingested])
   \<and> \<not> isFinite (er_amount (ex_record\<lparr>er_amount := NaN\<rparr>))
   \<and> ingestTransaction ex_ctx (ex_env ''-1'') ''team-a'' (ex_record\<lparr>er_amount := NaN\<rparr>)
        [ex_ingested] = (Inl ValidationError, [ex_ingested])
   \<and> isSupportedCurrency (er_currency ex_record) \<and> isFinite (er_amount ex_record)
   \<and> fst (ingestTransaction ex_ctx (ex_env ''-1'') ''team-a'' ex_record []) = Inr Created"
proof -
  have a: "\<not> isSupportedCurrency (er_currency (ex_record\<lparr>er_currency := ''usd''\<rparr>))"
    by (simp add: isSupportedCurrency_def currencies_def)
  have b: "\<not> isFinite (er_amount (ex_record\<lparr>er_amount := NaN\<rparr>))"
    by (simp add: isFinite_def)
  have c: "isSupportedCurrency (er_currency ex_record)" "isFinite (er_amount ex_record)"
    by (simp_all add: ex_record_def isSupportedCurrency_def currencies_def isFinite_def)
  from ingestTransaction_validation [of "ex_record\<lparr>er_currency := ''usd''\<rparr>" ex_ctx
      "ex_env ''-1''" "''team-a''" "[ex_ingested]"]
    ingestTransaction_validation [of "ex_record\<lparr>er_amount := NaN\<rparr>" ex_ctx
      "ex_env ''-1''" "''team-a''" "[ex_ingested]"]
    a b c ingest_example
  show ?thesis by simp
qed

section \<open>Ingestion: idempotency\<close>
















section \<open>The inbox state machine\<close>

lemma inboxStatus_of_string_string [simp]:
  "inboxStatus_of_string (inboxStatus_string s) = Some s"
  by (cases s) (simp_all add: inboxStatus_of_string_def)

lemma find_map_same:
  assumes "\<And>r. P (f r) = P r"
  shows "find P (map f rows) = map_option f (find P rows)"
  by (induction rows) (simp_all add: assms)

lemma find_first_both:
  assumes "find P rows = Some r" and "Q r" and "find (\<lambda>x. P x \<and> Q x) rows = Some r'"
  shows "r' = r"
  using assms by (induction rows) (auto split: if_splits)

lemma item_status_update:
  assumes upd: "update_rows inbox (inbox_item teamId itemId)
                  ((''status'', TextV (inboxStatus_string target)) # extra) (inbox_t d) = Inr rows'"
    and item: "find (inbox_item teamId itemId) (inbox_t d) = Some item"
    and st: "status_of item = Some s"
    and no_id: "map_of extra ''id'' = None"
  shows "item_status (d\<lparr>inbox_t := rows'\<rparr>) j = item_status d j
       \<or> (item_status d j = Some s \<and> item_status (d\<lparr>inbox_t := rows'\<rparr>) j = Some target)"
proof -
  let ?S = "(''status'', TextV (inboxStatus_string target)) # extra"
  let ?B = "bind_sets inbox ?S"
  let ?f = "\<lambda>r. if inbox_item teamId itemId r then set_cols ?B r else r"
  let ?P = "\<lambda>r. col r ''id'' = TextV j"
  from upd have rows': "rows' = map ?f (inbox_t d)"
    by (rule update_rows_result(1))
  have "map_of ?B ''id'' = None"
    using no_id by simp
  then have "col (set_cols ?B r) ''id'' = col r ''id''" for r
    by (rule col_set_cols_other)
  then have keep: "?P (?f r) = ?P r" for r
    by simp
  have st_new: "map_of ?B ''status'' = Some (TextV (inboxStatus_string target))"
    by (rule map_of_bind_sets_text) simp
  have found: "find ?P rows' = map_option ?f (find ?P (inbox_t d))"
    unfolding rows' using keep by (rule find_map_same)
  show ?thesis
  proof (cases "find ?P (inbox_t d)")
    case None
    then show ?thesis
      by (simp add: item_status_def found)
  next
    case (Some r)
    show ?thesis
    proof (cases "inbox_item teamId itemId r")
      case False
      then show ?thesis
        by (simp add: item_status_def found Some)
    next
      case True
      then have j: "j = itemId"
        using Some by (auto simp: inbox_item_def find_Some_iff)
      have same: "(\<lambda>x. ?P x \<and> col x ''team_id'' = TextV teamId) = inbox_item teamId itemId"
        by (auto simp: inbox_item_def j)
      have "col r ''team_id'' = TextV teamId"
        using True by (simp add: inbox_item_def)
      from find_first_both [of ?P "inbox_t d" r "\<lambda>x. col x ''team_id'' = TextV teamId" item,
          OF Some this] item
      have "item = r"
        by (simp add: same)
      moreover have "map_of r ''status'' \<noteq> None"
        using st \<open>item = r\<close> by (auto simp: status_of_def col_def split: option.splits)
      then have "status_of (set_cols ?B r) = Some target"
        using st_new by (auto simp: status_of_def col_set_cols)
      ultimately show ?thesis
        using st True by (simp add: item_status_def found Some)
    qed
  qed
qed

lemma item_status_other_tables [simp]:
  "item_status (d\<lparr>suggestions_t := x\<rparr>) j = item_status d j"
  "item_status (d\<lparr>transactions_t := y\<rparr>) j = item_status d j"
  by (simp_all add: item_status_def)

lemma transition_result:
  assumes "transition teamId itemId allowed target extra d = (res, d')"
  shows "d' = d \<or> (\<exists>item s rows'. find (inbox_item teamId itemId) (inbox_t d) = Some item
      \<and> status_of item = Some s \<and> allowed s
      \<and> update_rows inbox (inbox_item teamId itemId)
           ((''status'', TextV (inboxStatus_string target)) # extra) (inbox_t d) = Inr rows'
      \<and> res = Inr () \<and> d' = d\<lparr>inbox_t := rows'\<rparr>)"
  using assms by (auto simp: transition_def split: option.splits sum.splits if_splits)

lemma transition_follows_graph:
  assumes "\<And>s. allowed s \<Longrightarrow> inbox_edge s target" and "map_of extra ''id'' = None"
  shows "follows_graph (item_status d j)
           (item_status (snd (transition teamId itemId allowed target extra d)) j)"
proof -
  obtain res d' where r: "transition teamId itemId allowed target extra d = (res, d')"
    by (cases "transition teamId itemId allowed target extra d")
  from transition_result [OF r] show ?thesis
  proof (elim disjE exE conjE)
    assume "d' = d"
    then show ?thesis
      by (simp add: r follows_graph_def)
  next
    fix item s rows'
    assume a: "find (inbox_item teamId itemId) (inbox_t d) = Some item"
      "status_of item = Some s" "allowed s"
      "update_rows inbox (inbox_item teamId itemId)
           ((''status'', TextV (inboxStatus_string target)) # extra) (inbox_t d) = Inr rows'"
      "d' = d\<lparr>inbox_t := rows'\<rparr>"
    from item_status_update [OF a(4) a(1) a(2) assms(2), of j] assms(1) [OF a(3)]
    show ?thesis
      by (auto simp: follows_graph_def r a(5))
  qed
qed

lemma analysis_outcome_target:
  assumes "analysis_outcome cfg teamId item txs = (target, extra, keep)"
  shows "(target = No_match \<or> target = Done \<or> target = Suggested_match)
       \<and> map_of extra ''id'' = None"
  using assms by (auto simp: analysis_outcome_def Let_def split: option.splits if_splits)

lemma commit_analysis_result:
  assumes "commit_analysis gen n teamId itemId target extra keep d = (res, d')"
  shows "d' = d \<or> (\<exists>rows' suggestions'.
      insert_suggestions gen n itemId keep
         (delete_rows (suggestion_for itemId) (suggestions_t d)) = Inr suggestions'
      \<and> update_rows inbox (inbox_item teamId itemId)
           ((''status'', TextV (inboxStatus_string target)) # extra) (inbox_t d) = Inr rows'
      \<and> res = Inr () \<and> d' = d\<lparr>inbox_t := rows', suggestions_t := suggestions'\<rparr>)"
  using assms by (auto simp: commit_analysis_def split: sum.splits)

lemma analyze_result:
  assumes "analyze cfg gen n teamId itemId d = (res, d')"
  shows "d' = d \<or> (\<exists>item s target extra keep.
      find (inbox_item teamId itemId) (inbox_t d) = Some item \<and> status_of item = Some s
      \<and> (s = Analyzing \<or> s = Suggested_match \<or> s = No_match)
      \<and> analysis_outcome cfg teamId item (transactions_t d) = (target, extra, keep)
      \<and> commit_analysis gen n teamId itemId target extra keep d = (res, d'))"
  using assms by (auto simp: analyze_def split: option.splits if_splits prod.splits)

lemma analyze_follows_graph:
  "follows_graph (item_status d j) (item_status (snd (analyze cfg gen n teamId itemId d)) j)"
proof -
  obtain res d' where r: "analyze cfg gen n teamId itemId d = (res, d')"
    by (cases "analyze cfg gen n teamId itemId d")
  from analyze_result [OF r] consider "d' = d"
    | item s target extra keep where "find (inbox_item teamId itemId) (inbox_t d) = Some item"
      "status_of item = Some s" "s = Analyzing \<or> s = Suggested_match \<or> s = No_match"
      "analysis_outcome cfg teamId item (transactions_t d) = (target, extra, keep)"
      "commit_analysis gen n teamId itemId target extra keep d = (res, d')"
    by blast
  then show ?thesis
  proof cases
    case 1
    then show ?thesis
      by (simp add: r follows_graph_def)
  next
    case a: (2 item s target extra keep)
    note out = analysis_outcome_target [OF a(4)]
    from commit_analysis_result [OF a(5)] show ?thesis
    proof (elim disjE exE conjE)
      assume "d' = d"
      then show ?thesis
        by (simp add: r follows_graph_def)
    next
      fix rows' suggestions'
      assume c: "update_rows inbox (inbox_item teamId itemId)
           ((''status'', TextV (inboxStatus_string target)) # extra) (inbox_t d) = Inr rows'"
        "d' = d\<lparr>inbox_t := rows', suggestions_t := suggestions'\<rparr>"
      have "inbox_edge s target"
        using a(3) out by (auto simp: inbox_edge_def)
      with item_status_update [OF c(1) a(1) a(2), of j] out
      show ?thesis
        by (auto simp: follows_graph_def r c(2))
    qed
  qed
qed

lemma find_append:
  "find P (xs @ ys) = (case find P xs of None \<Rightarrow> find P ys | Some x \<Rightarrow> Some x)"
  by (induction xs) auto

lemma new_item_status:
  "status_of (apply_defaults e inbox
     ((''team_id'', t) # (''reference_id'', r) # (''status'', TextV (inboxStatus_string s)) # vs))
   = Some s"
  by (simp add: status_of_def col_apply_defaults inbox_def column_defs value_for_def)

lemma ingestInboxItem_result:
  assumes "ingestInboxItem e teamId referenceId payload manual d = (res, d')"
  shows "d' = d \<or> (\<exists>vs. d' = d\<lparr>inbox_t := inbox_t d @ [apply_defaults e inbox
      ((''team_id'', TextV teamId) # (''reference_id'', TextV referenceId) #
       (''status'', TextV (inboxStatus_string (if manual then Pending else New))) # vs)]\<rparr>)"
proof (cases "d' = d")
  case True
  then show ?thesis by simp
next
  case False
  with assms have "d' = d\<lparr>inbox_t := inbox_t d @ [apply_defaults e inbox
      ((''team_id'', TextV teamId) # (''reference_id'', TextV referenceId) #
       (''status'', TextV (inboxStatus_string (if manual then Pending else New))) #
       [(''amount'', opt_val RealV (p_amount payload)),
        (''currency'', opt_val TextV (p_currency payload)),
        (''date'', opt_val TextV (p_date payload)),
        (''attachments'', opt_val TextV (p_attachments payload))])]\<rparr>"
    by (auto simp add: ingestInboxItem_def insert_row_def Let_def
        simp del: inboxStatus_string.simps split: sum.splits if_splits)
  then show ?thesis by blast
qed

lemma ingestInboxItem_follows_graph:
  "follows_graph (item_status d j)
     (item_status (snd (ingestInboxItem e teamId referenceId payload manual d)) j)"
proof -
  obtain res d' where r: "ingestInboxItem e teamId referenceId payload manual d = (res, d')"
    by (cases "ingestInboxItem e teamId referenceId payload manual d")
  from ingestInboxItem_result [OF r] show ?thesis
  proof (elim disjE exE)
    assume "d' = d"
    then show ?thesis
      by (simp add: r follows_graph_def)
  next
    fix vs
    assume d': "d' = d\<lparr>inbox_t := inbox_t d @ [apply_defaults e inbox
      ((''team_id'', TextV teamId) # (''reference_id'', TextV referenceId) #
       (''status'', TextV (inboxStatus_string (if manual then Pending else New))) # vs)]\<rparr>"
    have "item_status d' j = item_status d j
       \<or> (item_status d j = None \<and> item_status d' j = Some (if manual then Pending else New))"
      unfolding d' item_status_def
      by (auto simp add: find_append new_item_status simp del: inboxStatus_string.simps
          split: option.splits)
    then show ?thesis
      by (auto simp: r follows_graph_def)
  qed
qed

lemma confirm_follows_graph:
  "follows_graph (item_status d j) (item_status (snd (confirm teamId itemId tx d)) j)"
proof -
  have "follows_graph (item_status d j) (item_status (snd (transition teamId itemId
      (\<lambda>s. s = Suggested_match) Done [(''transaction_id'', TextV tx)] d)) j)"
    by (rule transition_follows_graph) (simp_all add: inbox_edge_def)
  then show ?thesis
    by (auto simp: confirm_def follows_graph_def split: prod.splits sum.splits)
qed

lemma step_follows_graph:
  "follows_graph (item_status d j) (item_status (snd (step cfg x d)) j)"
proof (cases x)
  case (IngestTransaction ctx e teamId rec)
  then show ?thesis
    by (auto simp: follows_graph_def split: prod.splits sum.splits)
next
  case (IngestInboxItem e teamId referenceId payload manual)
  then show ?thesis
    by (simp add: ingestInboxItem_follows_graph)
next
  case (Accept teamId itemId)
  then show ?thesis
    by (simp add: accept_def transition_follows_graph inbox_edge_def)
next
  case (Extracted teamId itemId)
  then show ?thesis
    by (simp add: extracted_def transition_follows_graph inbox_edge_def)
next
  case (Analyze gen n teamId itemId)
  then show ?thesis
    by (simp add: analyze_follows_graph)
next
  case (Confirm teamId itemId tx)
  then show ?thesis
    by (simp add: confirm_follows_graph)
next
  case (Archive teamId itemId)
  then show ?thesis
    by (simp add: archive_def transition_follows_graph inbox_edge_def)
next
  case (Delete teamId itemId)
  then show ?thesis
    by (simp add: delete_item_def transition_follows_graph inbox_edge_def)
qed

lemma run_snoc: "run cfg (ops @ [x]) d = snd (step cfg x (run cfg ops d))"
  by (simp add: run_def)

lemma run_take_Suc:
  "k < length ops \<Longrightarrow> run cfg (take (Suc k) ops) d = snd (step cfg (ops ! k) (run cfg (take k ops) d))"
  by (simp add: take_Suc_conv_app_nth run_snoc)

lemma done_stays_done:
  "item_status d j = Some Done \<Longrightarrow> item_status (run cfg ops d) j = Some Done"
proof (induction ops rule: rev_induct)
  case Nil
  then show ?case by (simp add: run_def)
next
  case (snoc x ops)
  from step_follows_graph [of "run cfg ops d" j cfg x] snoc show ?case
    by (auto simp: run_snoc follows_graph_def inbox_edge_def)
qed

text \<open>
  C4.  In every sequence of operations from any stored state, each operation leaves the
  status of an inbox item where it is, or moves it along an edge of the state-machine
  graph, or creates the item as \<open>new\<close> or \<open>pending\<close>.  An item that is \<open>done\<close> stays
  \<open>done\<close>: no operation moves it back to \<open>analyzing\<close>, and the graph has no such edge.
\<close>

theorem inbox_status_follows_graph:
  "(k < length ops \<longrightarrow>
      follows_graph (item_status (run cfg (take k ops) d) i)
        (item_status (run cfg (take (Suc k) ops) d) i))
   \<and> (item_status d i = Some Done \<longrightarrow>
        item_status (run cfg ops d) i = Some Done
        \<and> item_status (run cfg ops d) i \<noteq> Some Analyzing)
   \<and> \<not> inbox_edge Done Analyzing"
proof (intro conjI impI)
  assume "k < length ops"
  then show "follows_graph (item_status (run cfg (take k ops) d) i)
        (item_status (run cfg (take (Suc k) ops) d) i)"
    by (simp add: run_take_Suc step_follows_graph)
next
  assume "item_status d i = Some Done"
  then show "item_status (run cfg ops d) i = Some Done"
    by (rule done_stays_done)
  then show "item_status (run cfg ops d) i \<noteq> Some Analyzing"
    by simp
next
  show "\<not> inbox_edge Done Analyzing"
    by (simp add: inbox_edge_def)
qed

lemma ex_done_item_cols:
  "col ex_done_item ''id'' = TextV ''id-1''"
  "col ex_done_item ''status'' = TextV ''done''"
  by (simp_all add: ex_done_item_def col_apply_defaults inbox_def column_defs
      default_value_def value_for_def ex_env_def)

theorem inbox_status_follows_graph_witness:
  "(0::nat) < length [Archive ''team-a'' ''id-1'']
   \<and> item_status ex_db_done ''id-1'' = Some Done
   \<and> follows_graph (item_status (run ex_cfg (take 0 [Archive ''team-a'' ''id-1'']) ex_db_done) ''id-1'')
        (item_status (run ex_cfg (take (Suc 0) [Archive ''team-a'' ''id-1'']) ex_db_done) ''id-1'')
   \<and> item_status (run ex_cfg [Archive ''team-a'' ''id-1''] ex_db_done) ''id-1'' = Some Done"
proof -
  have d: "item_status ex_db_done ''id-1'' = Some Done"
    by (simp add: item_status_def ex_db_done_def ex_done_item_cols status_of_def
        inboxStatus_of_string_def)
  note t = inbox_status_follows_graph [of 0 "[Archive ''team-a'' ''id-1'']" ex_cfg ex_db_done
      "''id-1''"]
  from t have "follows_graph
        (item_status (run ex_cfg (take 0 [Archive ''team-a'' ''id-1'']) ex_db_done) ''id-1'')
        (item_status (run ex_cfg (take (Suc 0) [Archive ''team-a'' ''id-1'']) ex_db_done) ''id-1'')"
    by simp
  moreover from t d
  have "item_status (run ex_cfg [Archive ''team-a'' ''id-1''] ex_db_done) ''id-1'' = Some Done"
    by blast
  ultimately show ?thesis
    using d by simp
qed

section \<open>Linked transactions\<close>

lemma unique_keys_inbox: "unique_keys inbox = [[''id''], [''reference_id'']]"
  by (simp add: unique_keys_def inbox_def column_defs)

lemma inbox_item_unique:
  assumes "table_ok inbox rows" and "find (inbox_item teamId itemId) rows = Some item"
    and "r \<in> set rows" and "inbox_item teamId itemId r"
  shows "r = item"
proof -
  have "item \<in> set rows" "inbox_item teamId itemId item"
    using assms(2) by (auto simp: find_Some_iff)
  moreover have "key_distinct [''id''] rows"
    using assms(1) by (simp add: table_ok_def unique_keys_inbox)
  ultimately show ?thesis
    using assms(3,4)
    by (intro key_distinct_same_row [of "[''id'']" rows])
       (auto simp: inbox_item_def key_of_def key_null_def)
qed

lemma status_not_done:
  "status_of r = Some s \<Longrightarrow> s \<noteq> Done \<Longrightarrow> col r ''status'' \<noteq> TextV ''done''"
  by (auto simp: status_of_def inboxStatus_of_string_def)

lemma links_ok_update:
  assumes ok: "table_ok inbox (inbox_t d)" and links: "links_ok d"
    and item: "find (inbox_item teamId itemId) (inbox_t d) = Some item"
    and st: "status_of item = Some s"
    and upd: "update_rows inbox (inbox_item teamId itemId)
                ((''status'', TextV (inboxStatus_string target)) # extra) (inbox_t d) = Inr rows'"
    and target: "target = Done \<or> (s \<noteq> Done \<and> map_of extra ''transaction_id'' = None)"
  shows "list_all (\<lambda>r. col r ''status'' = TextV ''done'' \<or> col r ''transaction_id'' = Null) rows'"
proof -
  let ?S = "(''status'', TextV (inboxStatus_string target)) # extra"
  let ?B = "bind_sets inbox ?S"
  let ?f = "\<lambda>r. if inbox_item teamId itemId r then set_cols ?B r else r"
  from upd have rows': "rows' = map ?f (inbox_t d)"
    by (rule update_rows_result(1))
  have st_new: "map_of ?B ''status'' = Some (TextV (inboxStatus_string target))"
    by (rule map_of_bind_sets_text) simp
  have each: "col (?f r) ''status'' = TextV ''done'' \<or> col (?f r) ''transaction_id'' = Null"
    if r: "r \<in> set (inbox_t d)" for r
  proof (cases "inbox_item teamId itemId r")
    case False
    then show ?thesis
      using links r by (simp add: links_ok_def list_all_iff)
  next
    case True
    have "r = item"
      using inbox_item_unique [OF ok item r True] .
    then have s: "status_of r = Some s"
      using st by simp
    then have has: "map_of r ''status'' \<noteq> None"
      by (auto simp: status_of_def col_def split: option.splits)
    from target show ?thesis
    proof
      assume "target = Done"
      then show ?thesis
        using True has st_new by (auto simp: col_set_cols)
    next
      assume a: "s \<noteq> Done \<and> map_of extra ''transaction_id'' = None"
      then have "col r ''status'' \<noteq> TextV ''done''"
        using s by (intro status_not_done) auto
      then have "col r ''transaction_id'' = Null"
        using links r by (auto simp: links_ok_def list_all_iff)
      moreover have "map_of ?B ''transaction_id'' = None"
        using a by simp
      ultimately show ?thesis
        using True by (simp add: col_set_cols_other)
    qed
  qed
  show ?thesis
    unfolding rows' list_all_iff
  proof
    fix x
    assume "x \<in> set (map ?f (inbox_t d))"
    then obtain r where "r \<in> set (inbox_t d)" and x: "x = ?f r"
      by auto
    from each [OF this(1)] show "col x ''status'' = TextV ''done'' \<or> col x ''transaction_id'' = Null"
      unfolding x .
  qed
qed

lemma inbox_inv_other_tables [simp]:
  "inbox_inv (d\<lparr>suggestions_t := x\<rparr>) = inbox_inv d"
  "inbox_inv (d\<lparr>transactions_t := y\<rparr>) = inbox_inv d"
  by (simp_all add: inbox_inv_def links_ok_def)

lemma inbox_inv_update:
  assumes "inbox_inv d"
    and "find (inbox_item teamId itemId) (inbox_t d) = Some item"
    and "status_of item = Some s"
    and "update_rows inbox (inbox_item teamId itemId)
           ((''status'', TextV (inboxStatus_string target)) # extra) (inbox_t d) = Inr rows'"
    and "target = Done \<or> (s \<noteq> Done \<and> map_of extra ''transaction_id'' = None)"
  shows "inbox_inv (d\<lparr>inbox_t := rows'\<rparr>)"
proof -
  have "table_ok inbox rows'"
    using assms(1,4) by (auto simp: inbox_inv_def intro: table_ok_update)
  moreover have "links_ok (d\<lparr>inbox_t := rows'\<rparr>)"
    using links_ok_update [OF _ _ assms(2,3,4,5)] assms(1)
    by (simp add: inbox_inv_def links_ok_def)
  ultimately show ?thesis
    by (simp add: inbox_inv_def)
qed

lemma transition_inbox_inv:
  assumes "inbox_inv d"
    and "target = Done \<or> (map_of extra ''transaction_id'' = None \<and> (\<forall>s. allowed s \<longrightarrow> s \<noteq> Done))"
  shows "inbox_inv (snd (transition teamId itemId allowed target extra d))"
proof -
  obtain res d' where r: "transition teamId itemId allowed target extra d = (res, d')"
    by (cases "transition teamId itemId allowed target extra d")
  from transition_result [OF r] consider "d' = d"
    | item s rows' where "find (inbox_item teamId itemId) (inbox_t d) = Some item"
      "status_of item = Some s" "allowed s"
      "update_rows inbox (inbox_item teamId itemId)
           ((''status'', TextV (inboxStatus_string target)) # extra) (inbox_t d) = Inr rows'"
      "d' = d\<lparr>inbox_t := rows'\<rparr>"
    by blast
  then show ?thesis
  proof cases
    case 1
    then show ?thesis
      using assms(1) by (simp add: r)
  next
    case a: (2 item s rows')
    have "target = Done \<or> (s \<noteq> Done \<and> map_of extra ''transaction_id'' = None)"
      using assms(2) a(3) by auto
    from inbox_inv_update [OF assms(1) a(1) a(2) a(4) this] show ?thesis
      by (simp add: r a(5))
  qed
qed

lemma analysis_outcome_link:
  assumes "analysis_outcome cfg teamId item txs = (target, extra, keep)"
  shows "target = Done \<or> map_of extra ''transaction_id'' = None"
  using assms by (auto simp: analysis_outcome_def Let_def split: option.splits if_splits)

lemma analyze_inbox_inv:
  assumes "inbox_inv d"
  shows "inbox_inv (snd (analyze cfg gen n teamId itemId d))"
proof -
  obtain res d' where r: "analyze cfg gen n teamId itemId d = (res, d')"
    by (cases "analyze cfg gen n teamId itemId d")
  from analyze_result [OF r] consider "d' = d"
    | item s target extra keep where "find (inbox_item teamId itemId) (inbox_t d) = Some item"
      "status_of item = Some s" "s = Analyzing \<or> s = Suggested_match \<or> s = No_match"
      "analysis_outcome cfg teamId item (transactions_t d) = (target, extra, keep)"
      "commit_analysis gen n teamId itemId target extra keep d = (res, d')"
    by blast
  then show ?thesis
  proof cases
    case 1
    then show ?thesis
      using assms by (simp add: r)
  next
    case a: (2 item s target extra keep)
    from commit_analysis_result [OF a(5)] consider "d' = d"
      | rows' suggestions' where "update_rows inbox (inbox_item teamId itemId)
           ((''status'', TextV (inboxStatus_string target)) # extra) (inbox_t d) = Inr rows'"
        "d' = d\<lparr>inbox_t := rows', suggestions_t := suggestions'\<rparr>"
      by blast
    then show ?thesis
    proof cases
      case 1
      then show ?thesis
        using assms by (simp add: r)
    next
      case c: (2 rows' suggestions')
      have "target = Done \<or> (s \<noteq> Done \<and> map_of extra ''transaction_id'' = None)"
        using analysis_outcome_link [OF a(4)] a(3) by auto
      from inbox_inv_update [OF assms a(1) a(2) c(1) this] show ?thesis
        by (simp add: r c(2))
    qed
  qed
qed

lemma new_item_unlinked:
  "col (apply_defaults e inbox
     [(''team_id'', v1), (''reference_id'', v2), (''status'', v3), (''amount'', v4),
      (''currency'', v5), (''date'', v6), (''attachments'', v7)]) ''transaction_id'' = Null"
  by (simp add: col_apply_defaults inbox_def column_defs default_value_def value_for_def)

lemma ingestInboxItem_inbox_inv:
  assumes "inbox_inv d"
  shows "inbox_inv (snd (ingestInboxItem e teamId referenceId payload manual d))"
proof -
  let ?vs = "[(''team_id'', TextV teamId), (''reference_id'', TextV referenceId),
      (''status'', TextV (inboxStatus_string (if manual then Pending else New))),
      (''amount'', opt_val RealV (p_amount payload)),
      (''currency'', opt_val TextV (p_currency payload)),
      (''date'', opt_val TextV (p_date payload)),
      (''attachments'', opt_val TextV (p_attachments payload))]"
  show ?thesis
  proof (cases "insert_row e inbox ?vs (inbox_t d)")
    case (Inl err)
    then show ?thesis
      using assms by (simp add: ingestInboxItem_def)
  next
    case (Inr rows')
    then have rows': "rows' = inbox_t d @ [apply_defaults e inbox ?vs]"
      by (auto simp: insert_row_def Let_def split: if_splits)
    have "table_ok inbox rows'"
      using assms Inr by (auto simp: inbox_inv_def intro: table_ok_insert)
    moreover have "links_ok (d\<lparr>inbox_t := rows'\<rparr>)"
      using assms unfolding rows' by (simp add: inbox_inv_def links_ok_def new_item_unlinked)
    ultimately have "inbox_inv (d\<lparr>inbox_t := rows'\<rparr>)"
      by (simp add: inbox_inv_def)
    then show ?thesis
      using assms Inr by (simp add: ingestInboxItem_def)
  qed
qed

lemma confirm_inbox_inv:
  assumes "inbox_inv d"
  shows "inbox_inv (snd (confirm teamId itemId tx d))"
proof -
  have "inbox_inv (snd (transition teamId itemId (\<lambda>s. s = Suggested_match) Done
      [(''transaction_id'', TextV tx)] d))"
    using assms by (rule transition_inbox_inv) simp
  then show ?thesis
    using assms by (auto simp: confirm_def split: prod.splits sum.splits)
qed

lemma step_inbox_inv:
  assumes "inbox_inv d"
  shows "inbox_inv (snd (step cfg x d))"
proof (cases x)
  case (IngestTransaction ctx e teamId rec)
  then show ?thesis
    using assms by (auto split: prod.splits sum.splits)
next
  case (IngestInboxItem e teamId referenceId payload manual)
  then show ?thesis
    using assms by (simp add: ingestInboxItem_inbox_inv)
next
  case (Accept teamId itemId)
  then show ?thesis
    using assms by (simp add: accept_def transition_inbox_inv)
next
  case (Extracted teamId itemId)
  then show ?thesis
    using assms by (simp add: extracted_def transition_inbox_inv)
next
  case (Analyze gen n teamId itemId)
  then show ?thesis
    using assms by (simp add: analyze_inbox_inv)
next
  case (Confirm teamId itemId tx)
  then show ?thesis
    using assms by (simp add: confirm_inbox_inv)
next
  case (Archive teamId itemId)
  then show ?thesis
    using assms by (simp add: archive_def transition_inbox_inv)
next
  case (Delete teamId itemId)
  then show ?thesis
    using assms by (simp add: delete_item_def transition_inbox_inv)
qed

lemma run_inbox_inv: "inbox_inv d \<Longrightarrow> inbox_inv (run cfg ops d)"
  by (induction ops rule: rev_induct) (simp_all add: run_def step_inbox_inv)

lemma inbox_inv_empty: "inbox_inv empty_db"
  by (simp add: inbox_inv_def empty_db_def table_ok_empty links_ok_def)

text \<open>
  C8.  In every state that the operations of the core produce from the empty store, an
  inbox item whose status is not \<open>done\<close> has no transaction linked: its \<open>transaction_id\<close>
  is null.
\<close>

theorem transaction_id_only_when_done:
  assumes "r \<in> set (inbox_t (run cfg ops empty_db))" and "col r ''status'' \<noteq> TextV ''done''"
  shows "col r ''transaction_id'' = Null"
proof -
  have "links_ok (run cfg ops empty_db)"
    using run_inbox_inv [OF inbox_inv_empty] by (simp add: inbox_inv_def)
  with assms show ?thesis
    by (auto simp: links_ok_def list_all_iff)
qed

lemma distinct_inbox_columns: "distinct (map cname (columns inbox))"
  by (simp add: inbox_def column_defs)

lemma ex_new_item_ok:
  "values_typed (ex_env ''-1'') inbox
     [(''team_id'', TextV ''team-a''), (''reference_id'', TextV ''ref-1''),
      (''status'', TextV ''new''), (''amount'', RealV (Finite 100)),
      (''currency'', TextV ''USD''), (''date'', TextV ''2024-01-11''),
      (''attachments'', Null)]"
  "not_null_ok inbox ex_new_item"
  "col ex_new_item ''status'' = TextV ''new''"
  unfolding ex_new_item_def values_typed_def
    not_null_ok_apply_defaults [OF distinct_inbox_columns] col_apply_defaults
  by (simp_all add: inbox_def column_defs default_value_def value_for_def has_type_def
      is_double_examples)

lemma ingest_inbox_example:
  "run ex_cfg [IngestInboxItem (ex_env ''-1'') ''team-a'' ''ref-1'' ex_payload False] empty_db
   = empty_db\<lparr>inbox_t := [ex_new_item]\<rparr>"
proof -
  have "insert_row (ex_env ''-1'') inbox
     [(''team_id'', TextV ''team-a''), (''reference_id'', TextV ''ref-1''),
      (''status'', TextV ''new''), (''amount'', RealV (Finite 100)),
      (''currency'', TextV ''USD''), (''date'', TextV ''2024-01-11''),
      (''attachments'', Null)] [] = Inr [ex_new_item]"
    using insert_row_ok [of "ex_env ''-1''" inbox _ "[]"] ex_new_item_ok unique_ok_Nil
    by (simp add: ex_new_item_def)
  then show ?thesis
    by (simp add: run_def ingestInboxItem_def empty_db_def ex_payload_def opt_val_def)
qed

theorem transaction_id_only_when_done_witness:
  "ex_new_item \<in> set (inbox_t (run ex_cfg
       [IngestInboxItem (ex_env ''-1'') ''team-a'' ''ref-1'' ex_payload False] empty_db))
   \<and> col ex_new_item ''status'' \<noteq> TextV ''done''
   \<and> col ex_new_item ''transaction_id'' = Null"
proof -
  have a: "ex_new_item \<in> set (inbox_t (run ex_cfg
       [IngestInboxItem (ex_env ''-1'') ''team-a'' ''ref-1'' ex_payload False] empty_db))"
    by (simp add: ingest_inbox_example)
  have b: "col ex_new_item ''status'' \<noteq> TextV ''done''"
    by (simp add: ex_new_item_ok)
  from transaction_id_only_when_done [OF a b] a b show ?thesis
    by simp
qed

section \<open>Transaction amounts\<close>

lemma ex_transaction_ok:
  "values_typed (ex_env ''-1'') transactions ex_transaction_values"
  "not_null_ok transactions ex_transaction"
  "col ex_transaction ''amount'' = RealV (Finite (3602879701896397 / 36028797018963968))"
  unfolding ex_transaction_def values_typed_def
    not_null_ok_apply_defaults [OF distinct_transactions_columns] col_apply_defaults
  by (simp_all add: transactions_def column_defs ex_transaction_values_def default_value_def
      value_for_def has_type_def is_double_examples)

lemma insert_ex_transaction:
  "insert_row (ex_env ''-1'') transactions ex_transaction_values [] = Inr [ex_transaction]"
  using insert_row_ok [of "ex_env ''-1''" transactions ex_transaction_values "[]"]
    ex_transaction_ok unique_ok_Nil
  by (simp add: ex_transaction_def)

text \<open>
  What the engine binds: a number that is not finite becomes \<open>NULL\<close>, so that it is refused
  by the \<open>NOT NULL\<close> column \<open>amount\<close> and stored as \<open>NULL\<close> in \<open>base_amount\<close>; an \<open>INTEGER\<close>
  column stores a number that is not an integer as a real.
\<close>

lemma bind_examples:
  "bind (real_col ''amount'') (RealV NaN) = Null"
  "bind (real_col ''amount'') (RealV PosInfinity) = Null"
  "bind (real_col ''amount'') (RealV NegInfinity) = Null"
  "bind (integer_col ''n'') (RealV (Finite (1 / 2))) = RealV (Finite (1 / 2))"
  "bind (integer_col ''n'') (RealV (Finite 3)) = IntV 3"
  "has_type (integer_col ''n'') (RealV (Finite (1 / 2)))"
  "\<not> has_type (real_col ''amount'') (RealV (Finite (1 / 10)))"
  by code_simp+

lemma insert_not_a_number:
  "insert_row (ex_env ''-1'') transactions ((''amount'', RealV NaN) # ex_transaction_values) []
   = Inl NotNullViolation"
  "map_sum id (map (\<lambda>r. (col r ''amount'', col r ''base_amount'')))
     (insert_row (ex_env ''-1'') transactions
        ((''base_amount'', RealV PosInfinity) # ex_transaction_values) [])
   = Inr [(RealV (Finite (3602879701896397 / 36028797018963968)), Null)]"
  by code_simp+

lemma round_double_one_tenth:
  "round_double (1 / 10) = Finite (3602879701896397 / 36028797018963968)"
  by code_simp

lemma ex_ingested_tenth_ok:
  "values_typed (ex_env ''-1'') transactions
     ((''team_id'', TextV ''team-a'') # (''internal_id'', TextV ''team-a_tx-2'') #
      record_fields ex_record_tenth @
      [(''base_amount'', RealV (Finite (3602879701896397 / 36028797018963968))),
       (''base_currency'', TextV ''USD'')])"
  "not_null_ok transactions ex_ingested_tenth"
  "col ex_ingested_tenth ''amount'' = RealV (Finite (3602879701896397 / 36028797018963968))"
  unfolding ex_ingested_tenth_def values_typed_def
    not_null_ok_apply_defaults [OF distinct_transactions_columns] col_apply_defaults
  by (simp_all add: transactions_def column_defs record_fields_def ex_record_tenth_def
      default_value_def value_for_def has_type_def is_double_examples)

lemma ingest_tenth_example:
  "ingestTransaction ex_ctx (ex_env ''-1'') ''team-a'' ex_record_tenth []
   = (Inr Created, [ex_ingested_tenth])"
proof -
  have v: "isSupportedCurrency (er_currency ex_record_tenth)"
    "isFinite (er_amount ex_record_tenth)"
    by (simp_all add: ex_record_tenth_def isSupportedCurrency_def currencies_def isFinite_def)
  have c: "convert ex_ctx (er_amount ex_record_tenth) (er_currency ex_record_tenth)
      (base_currency ex_ctx ''team-a'') (er_date ex_record_tenth)
      = Some (Finite (3602879701896397 / 36028797018963968))"
    "base_currency ex_ctx ''team-a'' = ''USD''" "er_internal_id ex_record_tenth = ''team-a_tx-2''"
    by (simp_all add: ex_ctx_def ex_record_tenth_def)
  have "insert_row (ex_env ''-1'') transactions
     ((''team_id'', TextV ''team-a'') # (''internal_id'', TextV ''team-a_tx-2'') #
      record_fields ex_record_tenth @
      [(''base_amount'', RealV (Finite (3602879701896397 / 36028797018963968))),
       (''base_currency'', TextV ''USD'')]) []
     = Inr [ex_ingested_tenth]"
    using insert_row_ok [of "ex_env ''-1''" transactions _ "[]"] ex_ingested_tenth_ok(1,2)
      unique_ok_Nil
    by (simp add: ex_ingested_tenth_def)
  then show ?thesis
    using v c by (simp add: ingestTransaction_def)
qed

text \<open>
  C5, as stated, fails.  The columns \<open>amount\<close> and \<open>base_amount\<close> of a transaction are
  \<open>REAL\<close> columns, that is binary floating point.  The amount 0.1 is the binary64 number
  3602879701896397 / 2^55, which is not the decimal 1/10, and that number is what is
  stored, by an insertion into the table as by the ingestion of a record; the currency
  beside it is the code \<open>USD\<close>.
\<close>

theorem transaction_amount_counterexample:
  "map_option ctype (column_of transactions ''amount'') = Some REAL
   \<and> map_option ctype (column_of transactions ''base_amount'') = Some REAL
   \<and> insert_row (ex_env ''-1'') transactions ex_transaction_values [] = Inr [ex_transaction]
   \<and> col ex_transaction ''amount'' = RealV (round_double (1 / 10))
   \<and> ingestTransaction ex_ctx (ex_env ''-1'') ''team-a'' ex_record_tenth []
       = (Inr Created, [ex_ingested_tenth])
   \<and> er_amount ex_record_tenth = round_double (1 / 10)
   \<and> col ex_ingested_tenth ''amount'' = RealV (round_double (1 / 10))
   \<and> round_double (1 / 10) \<noteq> Finite (1 / 10)"
  using insert_ex_transaction ex_transaction_ok(3) ingest_tenth_example ex_ingested_tenth_ok(3)
  by (simp add: round_double_one_tenth column_of_def transactions_def column_defs
      ex_record_tenth_def)

lemma stored_ok_REAL:
  assumes "stored_ok c v" and "ctype c = REAL"
  shows "v = Null \<or> (\<exists>a. v = RealV (Finite a) \<and> round_double a = Finite a)"
proof (cases v)
  case (RealV x)
  with assms show ?thesis
    by (cases x) (simp_all add: stored_ok_def isFinite_def is_double_def)
qed (use assms in \<open>simp_all add: stored_ok_def\<close>)

lemma stored_ok_TEXT:
  assumes "stored_ok c v" and "ctype c = TEXT"
  shows "v = Null \<or> (\<exists>s. v = TextV s)"
  using assms by (cases v) (simp_all add: stored_ok_def)

lemma transactions_row_shape:
  assumes "types_ok transactions r" and "not_null_ok transactions r"
  shows "(\<exists>a. col r ''amount'' = RealV (Finite a) \<and> round_double a = Finite a)
       \<and> (col r ''base_amount'' = Null
          \<or> (\<exists>b. col r ''base_amount'' = RealV (Finite b) \<and> round_double b = Finite b))
       \<and> (col r ''base_currency'' = Null \<or> (\<exists>c. col r ''base_currency'' = TextV c))"
proof -
  have t: "stored_ok (notNull (real_col ''amount'')) (col r ''amount'')"
      "stored_ok (real_col ''base_amount'') (col r ''base_amount'')"
      "stored_ok (text_col ''base_currency'') (col r ''base_currency'')"
    using assms(1) by (simp_all add: types_ok_def transactions_def column_defs)
  have n: "col r ''amount'' \<noteq> Null"
    using assms(2) by (simp add: not_null_ok_def transactions_def column_defs)
  from stored_ok_REAL [OF t(1)] stored_ok_REAL [OF t(2)] stored_ok_TEXT [OF t(3)] n
  show ?thesis
    by (simp add: column_defs)
qed

text \<open>The currency of every stored row is a supported code; the ingestion keeps it so.\<close>

lemma ingestTransaction_failed:
  "ingestTransaction ctx e teamId rec rows = (Inl err, rows1) \<Longrightarrow> rows1 = rows"
  by (auto simp: ingestTransaction_def Let_def split: if_splits option.splits sum.splits)

lemma ingestTransaction_written:
  assumes "ingestTransaction ctx e teamId rec rows = (Inr res, rows1)"
  shows "isSupportedCurrency (er_currency rec) \<and>
     (\<exists>fs. map_of fs ''currency'' = Some (TextV (er_currency rec))
        \<and> (insert_row e transactions fs rows = Inr rows1
           \<or> update_rows transactions (same_transaction teamId (er_internal_id rec)) fs rows
               = Inr rows1))"
proof -
  from assms have valid: "isSupportedCurrency (er_currency rec)" "isFinite (er_amount rec)"
    by (auto simp: ingestTransaction_def split: if_splits)
  from assms valid obtain base where
    base: "convert ctx (er_amount rec) (er_currency rec) (base_currency ctx teamId)
             (er_date rec) = Some base"
    by (auto simp: ingestTransaction_def split: option.splits)
  define S where "S = record_fields rec @
     [(''base_amount'', RealV base), (''base_currency'', TextV (base_currency ctx teamId))]"
  define vs where
    "vs = (''team_id'', TextV teamId) # (''internal_id'', TextV (er_internal_id rec)) # S"
  have cur: "map_of S ''currency'' = Some (TextV (er_currency rec))"
    "map_of vs ''currency'' = Some (TextV (er_currency rec))"
    by (simp_all add: vs_def S_def record_fields_def)
  have "insert_row e transactions vs rows = Inr rows1
      \<or> update_rows transactions (same_transaction teamId (er_internal_id rec)) S rows = Inr rows1"
    using assms valid base
    by (auto simp: ingestTransaction_def Let_def S_def vs_def split: option.splits sum.splits)
  with valid(1) cur show ?thesis
    by blast
qed

lemma inserted_currency:
  "map_of fs ''currency'' = Some (TextV c)
   \<Longrightarrow> col (apply_defaults e transactions fs) ''currency'' = TextV c"
  by (simp add: col_apply_defaults transactions_def column_defs value_for_def)

lemma updated_currency:
  assumes "map_of fs ''currency'' = Some (TextV c)" and "col r ''currency'' = TextV c'"
  shows "col (set_cols (bind_sets transactions fs) r) ''currency'' = TextV c"
proof -
  have "map_of r ''currency'' \<noteq> None"
    using assms(2) by (auto simp: col_def split: option.splits)
  with map_of_bind_sets_text [OF assms(1), of transactions] show ?thesis
    by (auto simp: col_set_cols)
qed

lemma ingestTransaction_keeps:
  assumes reach: "reachable transactions rows"
    and cur: "\<forall>r \<in> set rows. \<exists>c. col r ''currency'' = TextV c \<and> isSupportedCurrency c"
    and res: "ingestTransaction ctx e teamId rec rows = (res, rows1)"
  shows "reachable transactions rows1
       \<and> (\<forall>r \<in> set rows1. \<exists>c. col r ''currency'' = TextV c \<and> isSupportedCurrency c)"
proof (cases res)
  case (Inl err)
  with res have "rows1 = rows"
    by (simp add: ingestTransaction_failed)
  with reach cur show ?thesis
    by simp
next
  case (Inr ok)
  from ingestTransaction_written [OF res [unfolded Inr]] obtain fs where
    sup: "isSupportedCurrency (er_currency rec)"
    and fs: "map_of fs ''currency'' = Some (TextV (er_currency rec))"
    and w: "insert_row e transactions fs rows = Inr rows1
       \<or> update_rows transactions (same_transaction teamId (er_internal_id rec)) fs rows
           = Inr rows1"
    by blast
  from w show ?thesis
  proof
    assume ins: "insert_row e transactions fs rows = Inr rows1"
    have "reachable transactions rows1"
      using reach ins by (rule reachable.inserted)
    moreover have "\<forall>r \<in> set rows1. \<exists>c. col r ''currency'' = TextV c \<and> isSupportedCurrency c"
      using cur sup inserted_currency [OF fs, of e]
      by (auto simp: insert_row_result(1) [OF ins])
    ultimately show ?thesis ..
  next
    assume upd: "update_rows transactions (same_transaction teamId (er_internal_id rec)) fs rows
           = Inr rows1"
    have "reachable transactions rows1"
      using reach upd by (rule reachable.updated)
    moreover have "\<exists>c. col x ''currency'' = TextV c \<and> isSupportedCurrency c"
      if "x \<in> set rows1" for x
    proof -
      from that obtain r where r: "r \<in> set rows"
        and x: "x = r \<or> x = set_cols (bind_sets transactions fs) r"
        by (auto simp: update_rows_result(1) [OF upd] split: if_splits)
      from cur r obtain c' where c': "col r ''currency'' = TextV c'" "isSupportedCurrency c'"
        by blast
      from x show ?thesis
      proof
        assume "x = r"
        with c' show ?thesis by blast
      next
        assume "x = set_cols (bind_sets transactions fs) r"
        with updated_currency [OF fs c'(1)] sup show ?thesis by blast
      qed
    qed
    ultimately show ?thesis by blast
  qed
qed

lemma transition_transactions:
  "transactions_t (snd (transition teamId itemId allowed target extra d)) = transactions_t d"
  by (auto simp: transition_def split: option.splits sum.splits)

lemma analyze_transactions:
  "transactions_t (snd (analyze cfg gen n teamId itemId d)) = transactions_t d"
  by (auto simp: analyze_def commit_analysis_def split: option.splits sum.splits prod.splits)

lemma confirm_transactions:
  "transactions_t (snd (confirm teamId itemId tx d)) = transactions_t d"
proof -
  obtain res d' where r: "transition teamId itemId (\<lambda>s. s = Suggested_match) Done
      [(''transaction_id'', TextV tx)] d = (res, d')"
    by (cases "transition teamId itemId (\<lambda>s. s = Suggested_match) Done
      [(''transaction_id'', TextV tx)] d")
  from transition_transactions [of teamId itemId "\<lambda>s. s = Suggested_match" Done
      "[(''transaction_id'', TextV tx)]" d]
  have "transactions_t d' = transactions_t d"
    by (simp add: r)
  then show ?thesis
    by (cases res) (simp_all add: confirm_def r)
qed

lemma ingestInboxItem_transactions:
  "transactions_t (snd (ingestInboxItem e teamId referenceId payload manual d)) = transactions_t d"
  by (auto simp: ingestInboxItem_def split: sum.splits)

lemma step_transactions:
  assumes "reachable transactions (transactions_t d)"
    and "\<forall>r \<in> set (transactions_t d). \<exists>c. col r ''currency'' = TextV c \<and> isSupportedCurrency c"
  shows "reachable transactions (transactions_t (snd (step cfg x d)))
       \<and> (\<forall>r \<in> set (transactions_t (snd (step cfg x d))).
            \<exists>c. col r ''currency'' = TextV c \<and> isSupportedCurrency c)"
proof (cases x)
  case (IngestTransaction ctx e teamId rec)
  obtain res rows1 where r: "ingestTransaction ctx e teamId rec (transactions_t d) = (res, rows1)"
    by (cases "ingestTransaction ctx e teamId rec (transactions_t d)")
  note k = ingestTransaction_keeps [OF assms r]
  show ?thesis
  proof (cases res)
    case (Inl err)
    then show ?thesis
      using assms by (simp add: IngestTransaction r)
  next
    case (Inr ok)
    then show ?thesis
      using k by (simp add: IngestTransaction r)
  qed
next
  case (IngestInboxItem e teamId referenceId payload manual)
  then show ?thesis
    using assms by (simp add: ingestInboxItem_transactions)
next
  case (Accept teamId itemId)
  then show ?thesis
    using assms by (simp add: accept_def transition_transactions)
next
  case (Extracted teamId itemId)
  then show ?thesis
    using assms by (simp add: extracted_def transition_transactions)
next
  case (Analyze gen n teamId itemId)
  then show ?thesis
    using assms by (simp add: analyze_transactions)
next
  case (Confirm teamId itemId tx)
  then show ?thesis
    using assms by (simp add: confirm_transactions)
next
  case (Archive teamId itemId)
  then show ?thesis
    using assms by (simp add: archive_def transition_transactions)
next
  case (Delete teamId itemId)
  then show ?thesis
    using assms by (simp add: delete_item_def transition_transactions)
qed

lemma run_transactions:
  "reachable transactions (transactions_t (run cfg ops empty_db))
   \<and> (\<forall>r \<in> set (transactions_t (run cfg ops empty_db)).
        \<exists>c. col r ''currency'' = TextV c \<and> isSupportedCurrency c)"
proof (induction ops rule: rev_induct)
  case Nil
  show ?case
    by (simp add: run_def empty_db_def reachable.empty)
next
  case (snoc x ops)
  from step_transactions [of "run cfg ops empty_db" cfg x] snoc show ?case
    by (simp add: run_snoc)
qed

text \<open>
  C5, amended.  For every transaction stored by the operations of the core, starting from
  the empty store: the amount is not null and is a finite binary64 floating-point number
  (a rational that rounding to binary64 leaves as it is), the value of a \<open>REAL\<close> column;
  it is paired with a currency code that is one of the supported ISO codes; the base
  amount is null or a finite binary64 number, and the base currency is null or a text.
\<close>

theorem transaction_amount_amended:
  assumes "r \<in> set (transactions_t (run cfg ops empty_db))"
  shows "map_option ctype (column_of transactions ''amount'') = Some REAL
       \<and> map_option ctype (column_of transactions ''base_amount'') = Some REAL
       \<and> (\<exists>a. col r ''amount'' = RealV (Finite a) \<and> round_double a = Finite a)
       \<and> (\<exists>c. col r ''currency'' = TextV c \<and> isSupportedCurrency c)
       \<and> (col r ''base_amount'' = Null
          \<or> (\<exists>b. col r ''base_amount'' = RealV (Finite b) \<and> round_double b = Finite b))
       \<and> (col r ''base_currency'' = Null \<or> (\<exists>c. col r ''base_currency'' = TextV c))"
proof -
  note inv = run_transactions [of cfg ops]
  have reach: "reachable transactions (transactions_t (run cfg ops empty_db))"
    using inv by (rule conjunct1)
  have "types_ok transactions r"
    using reachable_types_ok [OF distinct_transactions_columns reach] assms
    by (simp add: list_all_iff)
  moreover have "not_null_ok transactions r"
    using reachable_table_ok [OF reach] assms by (simp add: table_ok_def row_ok_def list_all_iff)
  ultimately have shape:
    "(\<exists>a. col r ''amount'' = RealV (Finite a) \<and> round_double a = Finite a)
       \<and> (col r ''base_amount'' = Null
          \<or> (\<exists>b. col r ''base_amount'' = RealV (Finite b) \<and> round_double b = Finite b))
       \<and> (col r ''base_currency'' = Null \<or> (\<exists>c. col r ''base_currency'' = TextV c))"
    by (rule transactions_row_shape)
  have cur: "\<exists>c. col r ''currency'' = TextV c \<and> isSupportedCurrency c"
    using inv assms by blast
  have cols: "map_option ctype (column_of transactions ''amount'') = Some REAL"
    "map_option ctype (column_of transactions ''base_amount'') = Some REAL"
    by (simp_all add: column_of_def transactions_def column_defs)
  from shape cur cols show ?thesis
    by blast
qed

lemma ex_ingested_cols:
  "col ex_ingested ''amount'' = RealV (Finite 100)"
  "col ex_ingested ''currency'' = TextV ''USD''"
  "col ex_ingested ''base_amount'' = RealV (Finite 100)"
  "col ex_ingested ''base_currency'' = TextV ''USD''"
  by (simp_all add: ex_ingested_def col_apply_defaults transactions_def column_defs
      value_for_def record_fields_def ex_record_def)

lemma run_ingest_example:
  "run ex_cfg [IngestTransaction ex_ctx (ex_env ''-1'') ''team-a'' ex_record] empty_db
   = empty_db\<lparr>transactions_t := [ex_ingested]\<rparr>"
  by (simp add: run_def empty_db_def ingest_example)

theorem transaction_amount_amended_witness:
  "ex_ingested \<in> set (transactions_t (run ex_cfg
       [IngestTransaction ex_ctx (ex_env ''-1'') ''team-a'' ex_record] empty_db))
   \<and> col ex_ingested ''amount'' = RealV (Finite 100) \<and> round_double 100 = Finite 100
   \<and> col ex_ingested ''currency'' = TextV ''USD'' \<and> isSupportedCurrency ''USD''
   \<and> col ex_ingested ''base_amount'' = RealV (Finite 100)
   \<and> col ex_ingested ''base_currency'' = TextV ''USD''"
proof -
  have a: "ex_ingested \<in> set (transactions_t (run ex_cfg
       [IngestTransaction ex_ctx (ex_env ''-1'') ''team-a'' ex_record] empty_db))"
    by (simp add: run_ingest_example)
  note t = transaction_amount_amended [OF a]
  from t have "round_double 100 = Finite 100"
    by (simp add: ex_ingested_cols)
  moreover from t have "isSupportedCurrency ''USD''"
    by (simp add: ex_ingested_cols)
  ultimately show ?thesis
    using a by (simp add: ex_ingested_cols)
qed

section \<open>Match suggestions\<close>












text \<open>Every operation keeps the suggestions scored in range and one for each pair.\<close>

lemma suggestions_inv_inbox [simp]: "suggestions_inv (d\<lparr>inbox_t := x\<rparr>) = suggestions_inv d"
  by (simp add: suggestions_inv_def suggestions_ok_def)













end
